theory Spec2Isabelle
  imports Main "HOL-Library.Sublist"
begin

section \<open>Python strings\<close>

text \<open>
  Strings are character lists.  The three string methods that \<^verbatim>\<open>common_code.py\<close> calls
  are \<^verbatim>\<open>str.split(sep)\<close>, \<^verbatim>\<open>str.replace(old, new)\<close> with a one-character \<^verbatim>\<open>old\<close>, and
  \<^verbatim>\<open>str.capitalize\<close>; \<^verbatim>\<open>str(status)\<close> of an integer is used inside an f-string.
\<close>

text \<open>
  \<^verbatim>\<open>x.split(sep)\<close>: scan from the left, cut at every non-overlapping occurrence of the
  separator.  The accumulator holds the current piece reversed.  Python raises ValueError
  on an empty separator; the source only ever passes \<^verbatim>\<open>' ('\<close>.
\<close>

fun split_from :: "string \<Rightarrow> string \<Rightarrow> string \<Rightarrow> string list" where
  "split_from sep acc [] = [rev acc]"
| "split_from sep acc (c # cs) =
     (if sep \<noteq> [] \<and> prefix sep (c # cs)
      then rev acc # split_from sep [] (drop (length sep - 1) cs)
      else split_from sep (c # acc) cs)"

definition py_split :: "string \<Rightarrow> string \<Rightarrow> string list" where
  "py_split sep x = split_from sep [] x"

text \<open>\<^verbatim>\<open>s.replace(old, new)\<close> for a one-character \<^verbatim>\<open>old\<close>: every occurrence is replaced.\<close>

definition py_replace :: "char \<Rightarrow> string \<Rightarrow> string \<Rightarrow> string" where
  "py_replace old new s = concat (map (\<lambda>c. if c = old then new else [c]) s)"

text \<open>
  \<^verbatim>\<open>str.capitalize\<close>: the first character upper-cased, all others lower-cased.  Case
  conversion is modelled on the ASCII letters; every other byte is left as it is.
\<close>

definition lower_letters :: string where
  "lower_letters = ''abcdefghijklmnopqrstuvwxyz''"

definition upper_letters :: string where
  "upper_letters = ''ABCDEFGHIJKLMNOPQRSTUVWXYZ''"

definition to_upper :: "char \<Rightarrow> char" where
  "to_upper c = (case map_of (zip lower_letters upper_letters) c of Some u \<Rightarrow> u | None \<Rightarrow> c)"

definition to_lower :: "char \<Rightarrow> char" where
  "to_lower c = (case map_of (zip upper_letters lower_letters) c of Some l \<Rightarrow> l | None \<Rightarrow> c)"

fun capitalize :: "string \<Rightarrow> string" where
  "capitalize [] = []"
| "capitalize (c # cs) = to_upper c # map to_lower cs"

text \<open>\<^verbatim>\<open>str(n)\<close> for a Python integer: decimal digits, a minus sign when negative.\<close>

definition decimal_digits :: string where
  "decimal_digits = ''0123456789''"

definition digit_char :: "nat \<Rightarrow> char" where
  "digit_char d = decimal_digits ! d"

fun str_nat :: "nat \<Rightarrow> string" where
  "str_nat n = (if n < 10 then [digit_char n] else str_nat (n div 10) @ [digit_char (n mod 10)])"

declare str_nat.simps [simp del]

definition str_int :: "int \<Rightarrow> string" where
  "str_int i = (if i < 0 then CHR ''-'' # str_nat (nat (- i)) else str_nat (nat i))"

section \<open>Tables\<close>

text \<open>
  A pandas cell is a string, an integer, the missing value NaN, a parsed
  \<^verbatim>\<open>Timestamp\<close> (or \<^verbatim>\<open>NaT\<close>), or a \<^verbatim>\<open>datetime.date\<close> object (the synthetic row of
  \<^verbatim>\<open>combine_dfs\<close> carries one).  Only the calendar part of a time stamp is kept.
\<close>

datatype datetime = NaT | Timestamp int nat nat

datatype cell = Str string | PyInt int | NaN | DT datetime | PyDate int nat nat

datatype error = IndexError | KeyError | ValueError | AttributeError | InvalidIndexError

text \<open>
  A \<^verbatim>\<open>DataFrame\<close>: the column labels in order, the row labels (the index) in order, and
  the rows, each a list of cells aligned with the columns.  \<open>upper\<close> holds the header
  levels above the lowest one, outermost first: it is empty for a plain \<^verbatim>\<open>Index\<close> and has
  one entry for the two-level header of the men's outdoor table.
\<close>

record frame =
  upper :: "string list list"
  columns :: "string list"
  index :: "int list"
  rows :: "cell list list"

definition wf_frame :: "frame \<Rightarrow> bool" where
  "wf_frame f \<longleftrightarrow>
     distinct (columns f) \<and> length (index f) = length (rows f) \<and>
     list_all (\<lambda>r. length r = length (columns f)) (rows f)"

text \<open>The cell of a row under a column label.\<close>

definition cell_of :: "string list \<Rightarrow> cell list \<Rightarrow> string \<Rightarrow> cell option" where
  "cell_of cols r c = map_of (zip cols r) c"

text \<open>\<^verbatim>\<open>df[c]\<close> or \<^verbatim>\<open>df.c\<close> read as a list of cells; \<open>None\<close> when there is no such column.\<close>

definition get_col :: "string \<Rightarrow> frame \<Rightarrow> cell list option" where
  "get_col c f =
     (if c \<in> set (columns f) then Some (map (\<lambda>r. the (cell_of (columns f) r c)) (rows f))
      else None)"

text \<open>
  \<^verbatim>\<open>df[c] = values\<close>: an existing column is overwritten in place, a new one is appended
  as the last column.
\<close>

definition set_cell :: "string list \<Rightarrow> string \<Rightarrow> cell \<Rightarrow> cell list \<Rightarrow> cell list" where
  "set_cell cols c v r = map2 (\<lambda>k old. if k = c then v else old) cols r"

definition set_col :: "string \<Rightarrow> cell list \<Rightarrow> frame \<Rightarrow> frame" where
  "set_col c vs f =
     (if c \<in> set (columns f)
      then f\<lparr>rows := map2 (set_cell (columns f) c) vs (rows f)\<rparr>
      else f\<lparr>columns := columns f @ [c], rows := map2 (\<lambda>v r. r @ [v]) vs (rows f)\<rparr>)"

text \<open>\<^verbatim>\<open>df.iloc[i, j] = v\<close>: positions out of range raise IndexError.\<close>

definition iloc_set :: "nat \<Rightarrow> nat \<Rightarrow> cell \<Rightarrow> frame \<Rightarrow> error + frame" where
  "iloc_set i j v f =
     (if i < length (rows f) \<and> j < length (columns f)
      then Inr (f\<lparr>rows := (rows f)[i := (rows f ! i)[j := v]]\<rparr>)
      else Inl IndexError)"

text \<open>
  \<^verbatim>\<open>df.iloc[mask, :]\<close> with a mask computed from the row labels: the rows (and their
  labels) whose label satisfies the predicate, in order.
\<close>

definition iloc_rows :: "(int \<Rightarrow> bool) \<Rightarrow> frame \<Rightarrow> frame" where
  "iloc_rows p f =
     f\<lparr>index := filter p (index f),
       rows := map snd (filter (\<lambda>(l, r). p l) (zip (index f) (rows f)))\<rparr>"

text \<open>\<^verbatim>\<open>index.isin([x for x in range(lo, hi)])\<close>\<close>

definition isin_range :: "int \<Rightarrow> int \<Rightarrow> int \<Rightarrow> bool" where
  "isin_range lo hi l \<longleftrightarrow> l \<in> set [lo..hi - 1]"

text \<open>
  \<^verbatim>\<open>pd.concat(frames)\<close>: the rows of the frames one after the other, under the union of
  the column labels in order of first appearance; a cell of a column that a frame does not
  have is NaN.  Frames with identical labels are stacked as they are; otherwise duplicate
  labels make the re-indexing fail.
\<close>

definition union_cols :: "string list list \<Rightarrow> string list" where
  "union_cols css = rev (remdups (rev (concat css)))"

definition reindex_row :: "string list \<Rightarrow> string list \<Rightarrow> cell list \<Rightarrow> cell list" where
  "reindex_row cols ucols r =
     map (\<lambda>c. case cell_of cols r c of Some v \<Rightarrow> v | None \<Rightarrow> NaN) ucols"

definition concat_frames :: "frame list \<Rightarrow> error + frame" where
  "concat_frames fs =
     (if fs = [] then Inl ValueError
      else if list_all (\<lambda>f. columns f = columns (hd fs)) fs
      then Inr \<lparr>upper = [], columns = columns (hd fs), index = concat (map index fs),
                rows = concat (map rows fs)\<rparr>
      else if list_ex (\<lambda>f. \<not> distinct (columns f)) fs then Inl InvalidIndexError
      else let ucols = union_cols (map columns fs)
           in Inr \<lparr>upper = [], columns = ucols, index = concat (map index fs),
                   rows = concat (map (\<lambda>f. map (reindex_row (columns f) ucols) (rows f)) fs)\<rparr>)"

text \<open>\<^verbatim>\<open>df.reset_index(drop=True)\<close> and \<^verbatim>\<open>ignore_index=True\<close>: the labels become 0, 1, 2, ...\<close>

definition reset_index :: "frame \<Rightarrow> frame" where
  "reset_index f = f\<lparr>index := map int [0..<length (rows f)]\<rparr>"

text \<open>Sequencing of steps that may raise.\<close>

definition bind_err :: "error + 'a \<Rightarrow> ('a \<Rightarrow> error + 'b) \<Rightarrow> error + 'b" where
  "bind_err m k = (case m of Inl e \<Rightarrow> Inl e | Inr x \<Rightarrow> k x)"

section \<open>World-record normalizer\<close>

text \<open>
  \<^verbatim>\<open>create_world_records_df\<close> works on the \<^verbatim>\<open>DataFrame\<close> objects of the list it is given
  and assigns to their columns, so the tables live in a store and the list holds their
  addresses.  Each assignment is a step on the store; a step that raises leaves the store
  as the steps before it made it.
\<close>

type_synonym store = "nat \<Rightarrow> frame"

definition mutate :: "nat \<Rightarrow> (frame \<Rightarrow> error + frame) \<Rightarrow> store \<Rightarrow> error option \<times> store" where
  "mutate a g st = (case g (st a) of Inl e \<Rightarrow> (Some e, st) | Inr f \<Rightarrow> (None, st(a := f)))"

definition then_do ::
  "(store \<Rightarrow> error option \<times> store) \<Rightarrow> (store \<Rightarrow> error option \<times> store) \<Rightarrow>
   store \<Rightarrow> error option \<times> store" where
  "then_do m1 m2 st = (case m1 st of (Some e, st') \<Rightarrow> (Some e, st') | (None, st') \<Rightarrow> m2 st')"

text \<open>
  \<^verbatim>\<open>df_men.columns = df_men.columns.droplevel(0)\<close>: the outermost header level is removed;
  an index with a single level raises ValueError.
\<close>

definition droplevel0 :: "frame \<Rightarrow> error + frame" where
  "droplevel0 f = (if upper f = [] then Inl ValueError else Inr (f\<lparr>upper := tl (upper f)\<rparr>))"

text \<open>
  \<^verbatim>\<open>df.Date = pd.to_datetime(df.Date)\<close>.  The parser of pandas is a parameter: it gives
  the time stamp of a cell, or nothing where pandas raises.  Attribute access needs the
  label \<^verbatim>\<open>Date\<close> among the columns; a table whose header still has several levels is
  outside the model, which lets the access fail there.
\<close>

definition format_date :: "(cell \<Rightarrow> datetime option) \<Rightarrow> frame \<Rightarrow> error + frame" where
  "format_date to_datetime f =
     (if upper f \<noteq> [] then Inl AttributeError
      else case get_col ''Date'' f of
             None \<Rightarrow> Inl AttributeError
           | Some ds \<Rightarrow>
               if list_all (\<lambda>d. to_datetime d \<noteq> None) ds
               then Inr (set_col ''Date'' (map (\<lambda>d. DT (the (to_datetime d))) ds) f)
               else Inl ValueError)"

text \<open>\<^verbatim>\<open>df['gender'] = g\<close>\<close>

definition set_gender :: "string \<Rightarrow> frame \<Rightarrow> frame" where
  "set_gender g f = set_col ''gender'' (replicate (length (rows f)) (Str g)) f"

text \<open>Lines 39 to 50: the in-place preparation of the four selected tables.\<close>

definition prepare_tables ::
  "(cell \<Rightarrow> datetime option) \<Rightarrow> nat \<Rightarrow> nat \<Rightarrow> nat \<Rightarrow> nat \<Rightarrow> store \<Rightarrow> error option \<times> store" where
  "prepare_tables to_datetime df_men df_women df_men_indoor df_women_indoor =
     then_do (mutate df_men droplevel0)
    (then_do (mutate df_men (format_date to_datetime))
    (then_do (mutate df_men_indoor (format_date to_datetime))
    (then_do (mutate df_women (format_date to_datetime))
    (then_do (mutate df_women_indoor (format_date to_datetime))
    (then_do (mutate df_women (\<lambda>f. Inr (set_gender ''W'' f)))
             (mutate df_men (\<lambda>f. Inr (set_gender ''M'' f))))))))"

text \<open>Lines 52 to 60: the row selection, the concatenation and the renumbering.\<close>

definition select_and_combine :: "frame \<Rightarrow> frame \<Rightarrow> frame \<Rightarrow> frame \<Rightarrow> error + frame" where
  "select_and_combine m w mi wi =
     (let df_men = iloc_rows (\<lambda>l. \<not> isin_range 20 42 l) m;
          df_men_indoor = iloc_rows (isin_range 0 12) mi;
          df_women = iloc_rows (\<lambda>l. \<not> isin_range 27 50 l) w;
          df_women_indoor = iloc_rows (isin_range 0 10) wi
      in bind_err (concat_frames [df_men, df_women, df_men_indoor, df_women_indoor])
           (\<lambda>df. Inr (reset_index df)))"

text \<open>
  Line 61, \<^verbatim>\<open>df['year'] = df.Date.dt.year\<close>: the \<^verbatim>\<open>.dt\<close> accessor exists on a column of
  time stamps only; the year of \<^verbatim>\<open>NaT\<close> is NaN.
\<close>

definition dt_year :: "cell \<Rightarrow> cell option" where
  "dt_year c = (case c of DT (Timestamp y m d) \<Rightarrow> Some (PyInt y) | DT NaT \<Rightarrow> Some NaN | _ \<Rightarrow> None)"

definition add_year :: "frame \<Rightarrow> error + frame" where
  "add_year f =
     (case get_col ''Date'' f of
        None \<Rightarrow> Inl AttributeError
      | Some ds \<Rightarrow>
          if list_all (\<lambda>d. dt_year d \<noteq> None) ds
          then Inr (set_col ''year'' (map (\<lambda>d. the (dt_year d)) ds) f)
          else Inl AttributeError)"

text \<open>Lines 63 to 66: the three cell assignments by position.\<close>

definition correct_meetings :: "frame \<Rightarrow> error + frame" where
  "correct_meetings df =
     bind_err (iloc_set 9 9 (Str ''Diamond League'') df) (\<lambda>df.
     bind_err (iloc_set 11 9 (Str ''NN World Record Day'') df)
              (iloc_set 34 9 (Str ''NN World Record Day'')))"

definition create_world_records_df ::
  "(cell \<Rightarrow> datetime option) \<Rightarrow> nat list \<Rightarrow> store \<Rightarrow> (error + frame) \<times> store" where
  "create_world_records_df to_datetime df_list st =
     (if length df_list < 5 then (Inl IndexError, st)
      else let df_men = df_list ! 0; df_women = df_list ! 1;
               df_men_indoor = df_list ! 3; df_women_indoor = df_list ! 4
           in case prepare_tables to_datetime df_men df_women df_men_indoor df_women_indoor st of
                (Some e, st') \<Rightarrow> (Inl e, st')
              | (None, st') \<Rightarrow>
                  (bind_err (select_and_combine (st' df_men) (st' df_women)
                               (st' df_men_indoor) (st' df_women_indoor))
                     (\<lambda>df. bind_err (add_year df) correct_meetings), st'))"

section \<open>Wavelight normalizer\<close>

text \<open>
  \<^verbatim>\<open>create_wavelight_records_df\<close> from line 98 on, applied to the table that
  \<^verbatim>\<open>pd.read_html\<close> returned for the first \<^verbatim>\<open>table\<close> element of the page.  The table is fresh,
  so it is passed and returned as a value.
\<close>

text \<open>\<^verbatim>\<open>lambda x: x.split(' (')[1].replace(')','')\<close>\<close>

definition split_year :: "cell \<Rightarrow> error + cell" where
  "split_year x =
     (case x of
        Str s \<Rightarrow>
          (let parts = py_split '' ('' s
           in if length parts < 2 then Inl IndexError
              else Inr (Str (py_replace (CHR '')'') [] (parts ! 1))))
      | _ \<Rightarrow> Inl AttributeError)"

text \<open>\<^verbatim>\<open>lambda x: x.split(' (')[0]\<close>\<close>

definition split_name :: "cell \<Rightarrow> error + cell" where
  "split_name x =
     (case x of
        Str s \<Rightarrow> Inr (Str (hd (py_split '' ('' s)))
      | _ \<Rightarrow> Inl AttributeError)"

text \<open>\<^verbatim>\<open>Series.apply\<close>: the function on every cell in order, stopping at the first raise.\<close>

fun apply_cells :: "(cell \<Rightarrow> error + cell) \<Rightarrow> cell list \<Rightarrow> error + cell list" where
  "apply_cells g [] = Inr []"
| "apply_cells g (x # xs) =
     bind_err (g x) (\<lambda>y. bind_err (apply_cells g xs) (\<lambda>ys. Inr (y # ys)))"

definition mapper :: "(string \<times> string) list" where
  "mapper =
     [(''The Track at Boston'', ''The Track at Boston''),
      (''International Meeting de Lievin'', ''Meeting Hauts-de-France Pas-de-Calais''),
      (''Ethiopian Trials'', ''Ethiopian Olympic Trials''),
      (''FBK Games'', ''FBK Games''),
      (''NN World Record Day'', ''NN World Record Day''),
      (''Memorial van Damme'', ''Diamond League''),
      (''Herculis Monaco'', ''Herculis''),
      (''Monaco Diamond League'', ''Diamond League''),
      (''Impossible Games'', ''Impossible Games'')]"

text \<open>
  \<^verbatim>\<open>Series.map(d)\<close> with a dictionary: the value of the key, NaN for anything that is not
  a key.
\<close>

definition series_map :: "(string \<times> string) list \<Rightarrow> cell \<Rightarrow> cell" where
  "series_map d x =
     (case x of
        Str s \<Rightarrow> (case map_of d s of Some v \<Rightarrow> Str v | None \<Rightarrow> NaN)
      | _ \<Rightarrow> NaN)"

definition create_wavelight_records_df :: "frame \<Rightarrow> error + frame" where
  "create_wavelight_records_df df_wave =
     (case get_col ''Meeting'' df_wave of
        None \<Rightarrow> Inl KeyError
      | Some ms \<Rightarrow>
          bind_err (apply_cells split_year ms) (\<lambda>ys.
          let df1 = set_col ''year'' ys df_wave
          in bind_err (apply_cells split_name (the (get_col ''Meeting'' df1))) (\<lambda>ns.
             let df2 = set_col ''Meeting'' ns df1;
                 df3 = set_col ''Meeting''
                         (map (series_map mapper) (the (get_col ''Meeting'' df2))) df2;
                 df4 = set_col ''wavelight'' (replicate (length (rows df3)) (Str ''y'')) df3
             in iloc_set 1 0 (Str ''Jakob Ingebrigtsen'') df4)))"

section \<open>Merger\<close>

text \<open>
  \<^verbatim>\<open>left.merge(right, how='left', left_on=..., right_on=...)\<close>: for every left row in
  order, one output row per right row with equal key cells, in the order of the right
  table, or a single row with NaN in the right table's columns when there is none.  A
  right key column with the same label as its left key is not repeated; any other label
  that both tables have gets the suffixes \<^verbatim>\<open>_x\<close> and \<^verbatim>\<open>_y\<close>.  Missing keys match each other,
  as they do in pandas.

  Before it joins, pandas compares the types of each pair of key columns and raises
  ValueError for a column of text against a numeric column and for a column of time
  stamps against any other.  The type of a column is the one pandas infers from its
  cells: numeric when every cell is an integer or missing, a time-stamp column when every
  cell is a time stamp, and \<^verbatim>\<open>object\<close> otherwise.  An \<^verbatim>\<open>object\<close> column that holds an integer
  passes against a numeric column, and nothing is compared when one of the two columns
  is empty.
\<close>

datatype dtype = Object | Numeric | Datetime

definition is_number :: "cell \<Rightarrow> bool" where
  "is_number c = (case c of PyInt i \<Rightarrow> True | NaN \<Rightarrow> True | _ \<Rightarrow> False)"

definition is_integer :: "cell \<Rightarrow> bool" where
  "is_integer c = (case c of PyInt i \<Rightarrow> True | _ \<Rightarrow> False)"

definition is_stamp :: "cell \<Rightarrow> bool" where
  "is_stamp c = (case c of DT t \<Rightarrow> True | _ \<Rightarrow> False)"

definition infer_dtype :: "cell list \<Rightarrow> dtype" where
  "infer_dtype cs =
     (if list_all is_number cs then Numeric
      else if list_all is_stamp cs then Datetime
      else Object)"

definition incompatible_keys :: "cell list \<Rightarrow> cell list \<Rightarrow> bool" where
  "incompatible_keys lk rk \<longleftrightarrow>
     lk \<noteq> [] \<and> rk \<noteq> [] \<and>
     (let dl = infer_dtype lk; dr = infer_dtype rk
      in (dl = Object \<and> dr = Numeric \<and> \<not> list_ex is_integer lk) \<or>
         (dl = Numeric \<and> dr = Object \<and> \<not> list_ex is_integer rk) \<or>
         (dl = Datetime \<and> dr \<noteq> Datetime) \<or> (dl \<noteq> Datetime \<and> dr = Datetime))"

definition add_suffix :: "string list \<Rightarrow> string \<Rightarrow> string \<Rightarrow> string" where
  "add_suffix overlap sfx c = (if c \<in> set overlap then c @ sfx else c)"

definition key_of :: "string list \<Rightarrow> string list \<Rightarrow> cell list \<Rightarrow> cell list" where
  "key_of cols ks r = map (\<lambda>k. the (cell_of cols r k)) ks"

definition matches :: "frame \<Rightarrow> string list \<Rightarrow> cell list \<Rightarrow> cell list list" where
  "matches right right_on k = filter (\<lambda>y. key_of (columns right) right_on y = k) (rows right)"

definition merge_left :: "frame \<Rightarrow> frame \<Rightarrow> string list \<Rightarrow> string list \<Rightarrow> error + frame" where
  "merge_left left right left_on right_on =
     (if \<not> (set left_on \<subseteq> set (columns left) \<and> set right_on \<subseteq> set (columns right))
      then Inl KeyError
      else if list_ex (\<lambda>(lk, rk). incompatible_keys (the (get_col lk left)) (the (get_col rk right)))
                (zip left_on right_on)
      then Inl ValueError
      else let dropped = map snd (filter (\<lambda>(lk, rk). lk = rk) (zip left_on right_on));
               rcols = filter (\<lambda>c. c \<notin> set dropped) (columns right);
               overlap = filter (\<lambda>c. c \<in> set rcols) (columns left);
               joined = concat (map (\<lambda>x.
                   let ms = matches right right_on (key_of (columns left) left_on x)
                   in if ms = [] then [x @ replicate (length rcols) NaN]
                      else map (\<lambda>y. x @ key_of (columns right) rcols y) ms) (rows left))
           in Inr \<lparr>upper = [],
                   columns = map (add_suffix overlap ''_x'') (columns left) @
                             map (add_suffix overlap ''_y'') rcols,
                   index = map int [0..<length joined], rows = joined\<rparr>)"

text \<open>
  \<^verbatim>\<open>df_wave.year = df_wave.year.astype('int64')\<close>, an assignment to the caller's table.
  The conversion of one cell is a parameter: the integer, or nothing where it raises.
\<close>

definition astype_year :: "(cell \<Rightarrow> int option) \<Rightarrow> frame \<Rightarrow> error + frame" where
  "astype_year to_int64 f =
     (case get_col ''year'' f of
        None \<Rightarrow> Inl AttributeError
      | Some ys \<Rightarrow>
          if list_all (\<lambda>y. to_int64 y \<noteq> None) ys
          then Inr (set_col ''year'' (map (\<lambda>y. PyInt (the (to_int64 y))) ys) f)
          else Inl ValueError)"

text \<open>\<^verbatim>\<open>df_comb.wavelight = df_comb.wavelight.fillna('n')\<close>\<close>

definition fillna :: "cell \<Rightarrow> cell \<Rightarrow> cell" where
  "fillna v c = (if c = NaN \<or> c = DT NaT then v else c)"

definition fill_wavelight :: "frame \<Rightarrow> error + frame" where
  "fill_wavelight f =
     (case get_col ''wavelight'' f of
        None \<Rightarrow> Inl AttributeError
      | Some ws \<Rightarrow> Inr (set_col ''wavelight'' (map (fillna (Str ''n'')) ws) f))"

text \<open>The one-row table of lines 151 to 157.\<close>

definition sifan_hassan :: frame where
  "sifan_hassan =
     \<lparr>upper = [],
      columns = [''Event'', ''Athlete(s)'', ''Meeting'', ''year'', ''Date'', ''wavelight'',
                 ''gender'', ''Perf.''],
      index = [0],
      rows = [[Str ''10,000 m'', Str ''Sifan Hassan'', Str ''FBK Games'', PyInt 2021,
               PyDate 2021 6 6, Str ''y'', Str ''W'', Str ''29:06.82'']]\<rparr>"

definition combine_dfs ::
  "(cell \<Rightarrow> int option) \<Rightarrow> nat \<Rightarrow> nat \<Rightarrow> store \<Rightarrow> (error + frame) \<times> store" where
  "combine_dfs to_int64 df_wave df_records st =
     (case mutate df_wave (astype_year to_int64) st of
        (Some e, st') \<Rightarrow> (Inl e, st')
      | (None, st') \<Rightarrow>
          (bind_err (merge_left (st' df_records) (st' df_wave)
                       [''Athlete(s)'', ''Meeting'', ''year''] [''Athlete'', ''Meeting'', ''year''])
             (\<lambda>df_comb. bind_err (fill_wavelight df_comb)
             (\<lambda>df_comb. bind_err (concat_frames [df_comb, sifan_hassan])
             (\<lambda>df_comb. Inr (reset_index df_comb)))), st'))"

section \<open>Status reporter\<close>

text \<open>
  \<^verbatim>\<open>check_status\<close> prints one line; standard output is the list of the lines printed so
  far.
\<close>

definition check_status :: "int \<Rightarrow> string \<Rightarrow> string list \<Rightarrow> string list" where
  "check_status status location out =
     (if status = 200
      then out @ [capitalize location @ '' sucessfully opened and read.'']
      else out @ [''Unable to open or read '' @ location @ ''.  Error code: '' @ str_int status])"

section \<open>Notions used to state the properties\<close>

text \<open>The first occurrence of a separator in a string starts at position \<open>n\<close>.\<close>

definition first_at :: "string \<Rightarrow> nat \<Rightarrow> string \<Rightarrow> bool" where
  "first_at sep n x \<longleftrightarrow> prefix sep (drop n x) \<and> (\<forall>i<n. \<not> prefix sep (drop i x))"

text \<open>
  The split of a \<^verbatim>\<open>Meeting\<close> cell as the specification words it: cut at the first
  occurrence of \<^verbatim>\<open>" ("\<close>; the prefix is the meeting name, the suffix with its trailing
  \<^verbatim>\<open>")"\<close> stripped is the year text.
\<close>

fun find_sub :: "string \<Rightarrow> string \<Rightarrow> nat option" where
  "find_sub sep [] = (if sep = [] then Some 0 else None)"
| "find_sub sep (c # cs) =
     (if prefix sep (c # cs) then Some 0 else map_option Suc (find_sub sep cs))"

definition rstrip_paren :: "string \<Rightarrow> string" where
  "rstrip_paren s = (if s \<noteq> [] \<and> last s = CHR '')'' then butlast s else s)"

definition spec_split_meeting :: "string \<Rightarrow> (string \<times> string) option" where
  "spec_split_meeting x =
     (case find_sub '' ('' x of
        None \<Rightarrow> None
      | Some n \<Rightarrow> Some (take n x, rstrip_paren (drop (n + 2) x)))"

text \<open>The rows of a table at the positions whose row label satisfies a condition, in order.\<close>

definition kept_rows :: "(int \<Rightarrow> bool) \<Rightarrow> frame \<Rightarrow> cell list list" where
  "kept_rows p f = map (\<lambda>i. rows f ! i) (filter (\<lambda>i. p (index f ! i)) [0..<length (rows f)])"

text \<open>
  The selection of running events: the rows of the men's outdoor table outside 20..41,
  of the women's outdoor table outside 27..49, the rows 0..11 of the men's indoor table
  and the rows 0..9 of the women's indoor table, in this order, each with the column
  labels of its table.
\<close>

definition running_events :: "frame \<Rightarrow> frame \<Rightarrow> frame \<Rightarrow> frame \<Rightarrow> (string list \<times> cell list) list" where
  "running_events m w mi wi =
     map (Pair (columns m)) (kept_rows (\<lambda>l. l < 20 \<or> 41 < l) m) @
     map (Pair (columns w)) (kept_rows (\<lambda>l. l < 27 \<or> 49 < l) w) @
     map (Pair (columns mi)) (kept_rows (\<lambda>l. 0 \<le> l \<and> l \<le> 11) mi) @
     map (Pair (columns wi)) (kept_rows (\<lambda>l. 0 \<le> l \<and> l \<le> 9) wi)"

text \<open>
  The input that \<^verbatim>\<open>create_world_records_df\<close> is written for: at least five tables, the four
  selected ones different objects, each a well-formed table with a \<^verbatim>\<open>Date\<close> column that the
  date parser accepts; a two-level header on the men's outdoor table and plain headers
  on the other three; at least ten columns in the men's outdoor table and at least 35
  selected rows, so that the three positions patched at the end exist.
\<close>

definition valid_table :: "(cell \<Rightarrow> datetime option) \<Rightarrow> frame \<Rightarrow> bool" where
  "valid_table to_datetime f \<longleftrightarrow>
     wf_frame f \<and> ''Date'' \<in> set (columns f) \<and>
     list_all (\<lambda>r. to_datetime (the (cell_of (columns f) r ''Date'')) \<noteq> None) (rows f)"

definition valid_tables :: "(cell \<Rightarrow> datetime option) \<Rightarrow> nat list \<Rightarrow> store \<Rightarrow> bool" where
  "valid_tables to_datetime df_list st \<longleftrightarrow>
     5 \<le> length df_list \<and>
     distinct [df_list ! 0, df_list ! 1, df_list ! 3, df_list ! 4] \<and>
     list_all (\<lambda>a. valid_table to_datetime (st a))
       [df_list ! 0, df_list ! 1, df_list ! 3, df_list ! 4] \<and>
     length (upper (st (df_list ! 0))) = 1 \<and>
     list_all (\<lambda>a. upper (st a) = []) [df_list ! 1, df_list ! 3, df_list ! 4] \<and>
     10 \<le> length (columns (st (df_list ! 0))) \<and>
     35 \<le> length (running_events (st (df_list ! 0)) (st (df_list ! 1))
                     (st (df_list ! 3)) (st (df_list ! 4)))"

text \<open>A table after \<^verbatim>\<open>df.Date = pd.to_datetime(df.Date)\<close> has succeeded on it.\<close>

definition dated :: "(cell \<Rightarrow> datetime option) \<Rightarrow> frame \<Rightarrow> frame" where
  "dated to_datetime f =
     set_col ''Date''
       (map (\<lambda>r. DT (the (to_datetime (the (cell_of (columns f) r ''Date''))))) (rows f)) f"

text \<open>The store that the in-place preparation of valid tables leaves behind.\<close>

definition prepared :: "(cell \<Rightarrow> datetime option) \<Rightarrow> nat list \<Rightarrow> store \<Rightarrow> store" where
  "prepared to_datetime df_list st =
     st(df_list ! 0 := set_gender ''M'' (dated to_datetime ((st (df_list ! 0))\<lparr>upper := []\<rparr>)),
        df_list ! 1 := set_gender ''W'' (dated to_datetime (st (df_list ! 1))),
        df_list ! 3 := dated to_datetime (st (df_list ! 3)),
        df_list ! 4 := dated to_datetime (st (df_list ! 4)))"

text \<open>A table as the preparation leaves it: well formed, with every date parsed.\<close>

definition ready :: "frame \<Rightarrow> bool" where
  "ready f \<longleftrightarrow> wf_frame f \<and> ''Date'' \<in> set (columns f) \<and>
     (\<forall>r \<in> set (rows f). \<exists>d. cell_of (columns f) r ''Date'' = Some (DT d))"

text \<open>
  What the preparation keeps of a row: every cell outside the \<^verbatim>\<open>Date\<close> and \<^verbatim>\<open>gender\<close>
  columns.  A row is given with the column labels of its table.
\<close>

definition same_cells :: "string list \<times> cell list \<Rightarrow> string list \<times> cell list \<Rightarrow> bool" where
  "same_cells x y \<longleftrightarrow>
     set (fst x) \<subseteq> set (fst y) \<and> length (snd x) = length (fst x) \<and>
     (\<forall>c \<in> set (fst x). c \<noteq> ''Date'' \<and> c \<noteq> ''gender'' \<longrightarrow>
        cell_of (fst y) (snd y) c = cell_of (fst x) (snd x) c)"

text \<open>The rows after the three assignments of lines 64 to 66.\<close>

definition corrected_rows :: "cell list list \<Rightarrow> cell list list" where
  "corrected_rows rs =
     rs[9 := (rs ! 9)[9 := Str ''Diamond League''],
        11 := (rs ! 11)[9 := Str ''NN World Record Day''],
        34 := (rs ! 34)[9 := Str ''NN World Record Day'']]"

text \<open>The vendor table after \<^verbatim>\<open>df_wave.year = df_wave.year.astype('int64')\<close> has succeeded.\<close>

definition typed_years :: "(cell \<Rightarrow> int option) \<Rightarrow> frame \<Rightarrow> frame" where
  "typed_years to_int64 f =
     set_col ''year''
       (map (\<lambda>r. PyInt (the (to_int64 (the (cell_of (columns f) r ''year''))))) (rows f)) f"

text \<open>
  A column of names: every cell is a string or missing, and some cell is a string unless
  the column is empty.  A column of years: every cell is an integer or missing.
\<close>

definition is_text :: "cell \<Rightarrow> bool" where
  "is_text c = (case c of Str s \<Rightarrow> True | _ \<Rightarrow> False)"

definition text_column :: "cell list \<Rightarrow> bool" where
  "text_column cs \<longleftrightarrow>
     list_all (\<lambda>c. is_text c \<or> c = NaN) cs \<and> (cs = [] \<or> list_ex is_text cs)"

definition column :: "string \<Rightarrow> frame \<Rightarrow> cell list" where
  "column c f = map (\<lambda>r. the (cell_of (columns f) r c)) (rows f)"

text \<open>
  The input that \<^verbatim>\<open>combine_dfs\<close> is written for: two different well-formed tables, the
  world-record table with the columns \<^verbatim>\<open>Athlete(s)\<close>, \<^verbatim>\<open>Meeting\<close> and \<^verbatim>\<open>year\<close>, the vendor
  table with \<^verbatim>\<open>Athlete\<close>, \<^verbatim>\<open>Meeting\<close>, \<^verbatim>\<open>year\<close> and \<^verbatim>\<open>wavelight\<close>, no other label in
  common; athletes and meetings are columns of names in both tables, the years of the
  world-record table are integers or missing (they come from \<^verbatim>\<open>dt.year\<close>), and the years
  of the vendor table convert to integers.
\<close>

definition valid_join :: "(cell \<Rightarrow> int option) \<Rightarrow> nat \<Rightarrow> nat \<Rightarrow> store \<Rightarrow> bool" where
  "valid_join to_int64 df_wave df_records st \<longleftrightarrow>
     df_wave \<noteq> df_records \<and> wf_frame (st df_wave) \<and> wf_frame (st df_records) \<and>
     set [''Athlete'', ''Meeting'', ''year'', ''wavelight''] \<subseteq> set (columns (st df_wave)) \<and>
     set [''Athlete(s)'', ''Meeting'', ''year''] \<subseteq> set (columns (st df_records)) \<and>
     set (columns (st df_records)) \<inter> set (columns (st df_wave)) \<subseteq> {''Meeting'', ''year''} \<and>
     list_all (\<lambda>r. to_int64 (the (cell_of (columns (st df_wave)) r ''year'')) \<noteq> None)
       (rows (st df_wave)) \<and>
     text_column (column ''Athlete(s)'' (st df_records)) \<and>
     text_column (column ''Meeting'' (st df_records)) \<and>
     list_all is_number (column ''year'' (st df_records)) \<and>
     text_column (column ''Athlete'' (st df_wave)) \<and>
     text_column (column ''Meeting'' (st df_wave))"

text \<open>
  The triple a world-record row is matched on, and the triple of a vendor row.
\<close>

definition record_key :: "frame \<Rightarrow> cell list \<Rightarrow> cell list" where
  "record_key left x = key_of (columns left) [''Athlete(s)'', ''Meeting'', ''year''] x"

definition vendor_key :: "frame \<Rightarrow> cell list \<Rightarrow> cell list" where
  "vendor_key right y = key_of (columns right) [''Athlete'', ''Meeting'', ''year''] y"

text \<open>
  The triple of a row of the vendor table as the caller passes it, with its year converted
  to an integer as \<^verbatim>\<open>astype('int64')\<close> converts it.
\<close>

definition coerced_key :: "(cell \<Rightarrow> int option) \<Rightarrow> frame \<Rightarrow> cell list \<Rightarrow> cell list" where
  "coerced_key to_int64 right y =
     [the (cell_of (columns right) y ''Athlete''), the (cell_of (columns right) y ''Meeting''),
      PyInt (the (to_int64 (the (cell_of (columns right) y ''year''))))]"

text \<open>
  The match as the specification words it: athlete and meeting are strings and equal as
  strings, and the vendor's year, converted, is the integer year of the record.
\<close>

definition same_string :: "cell \<Rightarrow> cell \<Rightarrow> bool" where
  "same_string a b = (case (a, b) of (Str s, Str t) \<Rightarrow> s = t | _ \<Rightarrow> False)"

definition exact_match ::
  "(cell \<Rightarrow> int option) \<Rightarrow> frame \<Rightarrow> frame \<Rightarrow> cell list \<Rightarrow> cell list \<Rightarrow> bool" where
  "exact_match to_int64 left right x y \<longleftrightarrow>
     same_string (the (cell_of (columns left) x ''Athlete(s)''))
       (the (cell_of (columns right) y ''Athlete'')) \<and>
     same_string (the (cell_of (columns left) x ''Meeting''))
       (the (cell_of (columns right) y ''Meeting'')) \<and>
     (case (the (cell_of (columns left) x ''year''),
            to_int64 (the (cell_of (columns right) y ''year''))) of
        (PyInt n, Some m) \<Rightarrow> n = m
      | _ \<Rightarrow> False)"


text \<open>
  The pairs of the left join in output order: every world-record row with each vendor
  row of equal triple, or alone when there is none.
\<close>

definition join_pairs :: "frame \<Rightarrow> frame \<Rightarrow> (cell list \<times> cell list option) list" where
  "join_pairs left right =
     concat (map (\<lambda>x. case filter (\<lambda>y. vendor_key right y = record_key left x) (rows right) of
                         [] \<Rightarrow> [(x, None)]
                       | ms \<Rightarrow> map (\<lambda>y. (x, Some y)) ms) (rows left))"

text \<open>The row that the merge makes of a pair, over the columns of the vendor table it keeps.\<close>

definition merged_row :: "frame \<Rightarrow> string list \<Rightarrow> cell list \<times> cell list option \<Rightarrow> cell list" where
  "merged_row right rcols p =
     (case snd p of None \<Rightarrow> fst p @ replicate (length rcols) NaN
      | Some y \<Rightarrow> fst p @ key_of (columns right) rcols y)"

text \<open>
  The cell of the combined table for a pair and a column label: the world-record row's
  cell under its own labels; the vendor row's flag, or \<^verbatim>\<open>n\<close> where it is missing, under
  \<^verbatim>\<open>wavelight\<close>; the vendor row's cell, or NaN for a row without match, under the other
  vendor labels; NaN under a label that only the synthetic row has.
\<close>

definition combined_cell ::
  "frame \<Rightarrow> frame \<Rightarrow> cell list \<times> cell list option \<Rightarrow> string \<Rightarrow> cell option" where
  "combined_cell left right p c =
     (if c \<in> set (columns left) then cell_of (columns left) (fst p) c
      else if c = ''wavelight''
      then Some (fillna (Str ''n'')
                  (case snd p of None \<Rightarrow> NaN | Some y \<Rightarrow> the (cell_of (columns right) y ''wavelight'')))
      else if c \<in> set (columns right)
      then Some (case snd p of None \<Rightarrow> NaN | Some y \<Rightarrow> the (cell_of (columns right) y c))
      else if c \<in> set (columns sifan_hassan) then Some NaN
      else None)"

section \<open>Example tables\<close>

text \<open>
  Five small tables in the shape of the records page: ten columns with the meeting in
  column 9, a two-level header on the first table, and enough rows for every index range
  of the selection to drop something.  The date parser of the examples knows the two
  dates that occur in them.
\<close>

definition example_to_datetime :: "cell \<Rightarrow> datetime option" where
  "example_to_datetime c =
     (case c of
        Str s \<Rightarrow> (if s = ''16 August 2009'' then Some (Timestamp 2009 8 16)
                  else if s = ''6 June 2021'' then Some (Timestamp 2021 6 6) else None)
      | NaN \<Rightarrow> Some NaT
      | DT t \<Rightarrow> Some t
      | _ \<Rightarrow> None)"

definition example_columns :: "string list" where
  "example_columns =
     [''Event'', ''Perf.'', ''Avg.'', ''Athlete(s)'', ''Nat.'', ''Date'', ''Location'',
      ''Country'', ''Ref.'', ''Meeting'']"

definition example_row :: "string \<Rightarrow> cell list" where
  "example_row ev =
     [Str ev, Str ''9.58'', Str ''37.58'', Str ''Usain Bolt'', Str ''JAM'',
      Str ''16 August 2009'', Str ''Berlin'', Str ''Germany'', Str ''[1]'',
      Str ''World Championships'']"

definition example_table :: "string list list \<Rightarrow> string \<Rightarrow> nat \<Rightarrow> frame" where
  "example_table up ev n =
     \<lparr>upper = up, columns = example_columns, index = map int [0..<n],
      rows = replicate n (example_row ev)\<rparr>"

definition example_store :: store where
  "example_store =
     (\<lambda>a. example_table [] ''other'' 0)
       (0 := example_table [replicate 10 ''Men''] ''100 m'' 43,
        1 := example_table [] ''100 m (women)'' 51,
        3 := example_table [] ''50 m'' 13,
        4 := example_table [] ''50 m (women)'' 11)"

text \<open>A row of the example tables after its date has been parsed.\<close>

definition example_dated_row :: "string \<Rightarrow> cell list" where
  "example_dated_row ev =
     [Str ev, Str ''9.58'', Str ''37.58'', Str ''Usain Bolt'', Str ''JAM'',
      DT (Timestamp 2009 8 16), Str ''Berlin'', Str ''Germany'', Str ''[1]'',
      Str ''World Championships'']"

text \<open>
  A world-record table of three rows and a vendor table of three rows for the merger: the
  first record has one vendor row, the second has two, the third has none.  The
  conversion of the examples knows their year texts.
\<close>

definition example_to_int64 :: "cell \<Rightarrow> int option" where
  "example_to_int64 c =
     (case c of
        Str s \<Rightarrow> (if s = ''2009'' then Some 2009 else if s = ''2020'' then Some 2020
                  else if s = ''2021'' then Some 2021 else None)
      | PyInt i \<Rightarrow> Some i
      | _ \<Rightarrow> None)"

definition example_records :: frame where
  "example_records =
     \<lparr>upper = [], columns = [''Event'', ''Athlete(s)'', ''Meeting'', ''year'', ''gender''],
      index = [0, 1, 2],
      rows = [[Str ''100 m'', Str ''Usain Bolt'', Str ''Diamond League'', PyInt 2009, Str ''M''],
              [Str ''5000 m'', Str ''Joshua Cheptegei'', Str ''Herculis'', PyInt 2020, Str ''M''],
              [Str ''Mile'', Str ''Hicham El Guerrouj'', Str ''Golden Gala'', PyInt 1999, Str ''M'']]\<rparr>"

definition example_wave :: frame where
  "example_wave =
     \<lparr>upper = [], columns = [''Athlete'', ''Meeting'', ''year'', ''wavelight''],
      index = [0, 1, 2],
      rows = [[Str ''Usain Bolt'', Str ''Diamond League'', Str ''2009'', Str ''y''],
              [Str ''Joshua Cheptegei'', Str ''Herculis'', Str ''2020'', Str ''y''],
              [Str ''Joshua Cheptegei'', Str ''Herculis'', Str ''2020'', Str ''y'']]\<rparr>"

definition example_join_store :: store where
  "example_join_store = (\<lambda>a. example_records)(0 := example_wave)"

text \<open>The vendor table of the example after the conversion of its years.\<close>

definition example_typed_wave :: frame where
  "example_typed_wave =
     \<lparr>upper = [], columns = [''Athlete'', ''Meeting'', ''year'', ''wavelight''],
      index = [0, 1, 2],
      rows = [[Str ''Usain Bolt'', Str ''Diamond League'', PyInt 2009, Str ''y''],
              [Str ''Joshua Cheptegei'', Str ''Herculis'', PyInt 2020, Str ''y''],
              [Str ''Joshua Cheptegei'', Str ''Herculis'', PyInt 2020, Str ''y'']]\<rparr>"





text \<open>
  A world-record table whose year column is text, as no stage of the script produces it,
  against the vendor table of the example.
\<close>

definition text_year_records :: frame where
  "text_year_records =
     \<lparr>upper = [], columns = [''Event'', ''Athlete(s)'', ''Meeting'', ''year''],
      index = [0],
      rows = [[Str ''100 m'', Str ''Usain Bolt'', Str ''Diamond League'', Str ''2009'']]\<rparr>"

definition text_year_store :: store where
  "text_year_store = (\<lambda>a. text_year_records)(0 := example_wave)"





section \<open>Properties of the status reporter\<close>

lemma str_nat_ne: "str_nat n \<noteq> []" 
  by (subst str_nat.simps) simp

lemma digit_char_in: "d < 10 \<Longrightarrow> digit_char d \<in> set decimal_digits"
  unfolding digit_char_def by (rule nth_mem) (simp add: decimal_digits_def)

lemma last_str_nat: "last (str_nat n) \<in> set decimal_digits"
  by (subst str_nat.simps) (simp add: digit_char_in)

lemma last_str_int: "last (str_int i) \<in> set decimal_digits"
  by (simp add: str_int_def last_str_nat str_nat_ne)

lemma str_int_ne: "str_int i \<noteq> []"
  by (simp add: str_int_def str_nat_ne)

lemma to_lower_to_upper: "to_lower (to_upper c) = to_lower c"
  unfolding to_lower_def to_upper_def lower_letters_def upper_letters_def
  by simp

lemma to_lower_idem: "to_lower (to_lower c) = to_lower c"
  unfolding to_lower_def to_upper_def lower_letters_def upper_letters_def
  by simp

lemma lower_capitalize: "map to_lower (capitalize s) = map to_lower s"
  by (cases s) (simp_all add: to_lower_to_upper to_lower_idem)

text \<open>
  Claim C10.  For every status code and location, \<^verbatim>\<open>check_status\<close> prints exactly one line
  after what was printed before, it always returns, and processing goes on.  The line is the success line, the
  capitalised location followed by the success text, if and only if the status is 200;
  otherwise it is an error line that starts with the error text, contains the location
  as given and ends with the status code.  The capitalised location is the location up
  to letter case.
\<close>

theorem check_status_line:
  "\<exists>line. check_status status location out = out @ [line] \<and>
     (line = capitalize location @ '' sucessfully opened and read.'' \<longleftrightarrow> status = 200) \<and>
     (status \<noteq> 200 \<longrightarrow>
        prefix ''Unable to open or read '' line \<and> sublist location line \<and>
        suffix (str_int status) line) \<and>
     map to_lower (capitalize location) = map to_lower location"
proof (cases "status = 200")
  case True
  then show ?thesis by (simp add: check_status_def lower_capitalize)
next
  case False
  let ?line = "''Unable to open or read '' @ location @ ''.  Error code: '' @ str_int status"
  let ?succ = "capitalize location @ '' sucessfully opened and read.''"
  have l1: "last ?line = last (str_int status)"
    using str_int_ne[of status] by simp
  have l2: "last ?succ = CHR ''.''"
    by simp
  have l3: "CHR ''.'' \<notin> set decimal_digits"
    by (simp add: decimal_digits_def)
  have neq: "?line \<noteq> ?succ"
  proof
    assume "?line = ?succ"
    then have "last ?line = last ?succ" by (rule arg_cong)
    then have "last (str_int status) = CHR ''.''" using l1 l2 by (simp only:)
    then show False using last_str_int[of status] l3 by (simp only:)
  qed
  have sub: "sublist location ?line"
    by (metis sublist_appendI)
  have suf: "suffix (str_int status) ?line"
    by (metis append.assoc suffixI)
  have pre: "prefix ''Unable to open or read '' ?line"
    by (metis prefixI)
  have "check_status status location out = out @ [?line]"
    using False by (simp add: check_status_def)
  with neq sub suf pre False show ?thesis
    by (intro exI[of _ ?line] conjI impI iffI lower_capitalize) (simp_all only: not_False_eq_True)
qed

theorem check_status_line_witness:
  "check_status 404 ''wikipedia URL'' [] = [''Unable to open or read wikipedia URL.  Error code: 404''] \<and>
   check_status 200 ''wikipedia URL'' [] = [''Wikipedia url sucessfully opened and read.'']"
  using check_status_line[of 404 "''wikipedia URL''" "[]"] check_status_line[of 200 "''wikipedia URL''" "[]"]
  by (simp add: check_status_def str_int_def str_nat.simps digit_char_def decimal_digits_def
      to_upper_def to_lower_def lower_letters_def upper_letters_def)

section \<open>Properties of tables\<close>

lemma cell_of_nth:
  "distinct cols \<Longrightarrow> length r = length cols \<Longrightarrow> j < length cols \<Longrightarrow>
   cell_of cols r (cols ! j) = Some (r ! j)"
  unfolding cell_of_def by (simp add: map_of_zip_nth)

lemma cell_of_None: "length r = length cols \<Longrightarrow> cell_of cols r c = None \<longleftrightarrow> c \<notin> set cols"
proof -
  assume "length r = length cols"
  then have "fst ` set (zip cols r) = set cols"
    by (metis map_fst_zip set_map)
  then show ?thesis
    unfolding cell_of_def by (simp add: map_of_eq_None_iff)
qed

lemma cell_of_single: "cell_of [c] [v] k = (if k = c then Some v else None)"
  by (simp add: cell_of_def)

lemma cell_of_append:
  "length r = length cols \<Longrightarrow>
   cell_of (cols @ cols') (r @ r') c =
     (case cell_of cols r c of Some v \<Rightarrow> Some v | None \<Rightarrow> cell_of cols' r' c)"
  unfolding cell_of_def by (simp add: map_add_def)

lemma length_set_cell: "length (set_cell cols c v r) = min (length cols) (length r)"
  by (simp add: set_cell_def)

lemma cell_of_set_cell:
  "length r = length cols \<Longrightarrow>
   cell_of cols (set_cell cols c v r) k =
     (if k = c \<and> c \<in> set cols then Some v else cell_of cols r k)"
proof (induction cols arbitrary: r)
  case Nil
  then show ?case by (simp add: cell_of_def set_cell_def)
next
  case (Cons a cols)
  then obtain x xs where r: "r = x # xs" by (cases r) auto
  with Cons.prems have "length xs = length cols" by simp
  from Cons.IH[OF this] r show ?case
    by (auto simp: cell_of_def set_cell_def)
qed

lemma nth_set_cell:
  "length r = length cols \<Longrightarrow> j < length cols \<Longrightarrow>
   set_cell cols c v r ! j = (if cols ! j = c then v else r ! j)"
  by (simp add: set_cell_def)

lemma wf_frameD:
  assumes "wf_frame f"
  shows "distinct (columns f)" and "length (index f) = length (rows f)"
    and "r \<in> set (rows f) \<Longrightarrow> length r = length (columns f)"
    and "i < length (rows f) \<Longrightarrow> length (rows f ! i) = length (columns f)"
  using assms by (auto simp: wf_frame_def list_all_iff)

lemma get_col_Some:
  "c \<in> set (columns f) \<Longrightarrow>
   get_col c f = Some (map (\<lambda>r. the (cell_of (columns f) r c)) (rows f))"
  by (simp add: get_col_def)

lemma get_col_None: "c \<notin> set (columns f) \<Longrightarrow> get_col c f = None"
  by (simp add: get_col_def)

lemma length_get_col: "get_col c f = Some vs \<Longrightarrow> length vs = length (rows f)"
  by (auto simp: get_col_def split: if_splits)

lemma set_col_basic:
  "index (set_col c vs f) = index f" "upper (set_col c vs f) = upper f"
  "length vs = length (rows f) \<Longrightarrow> length (rows (set_col c vs f)) = length (rows f)"
  "columns (set_col c vs f) = (if c \<in> set (columns f) then columns f else columns f @ [c])"
  by (simp_all add: set_col_def)

lemma wf_set_col:
  assumes "wf_frame f" "length vs = length (rows f)"
  shows "wf_frame (set_col c vs f)"
proof (cases "c \<in> set (columns f)")
  case True
  have "length r = length (columns f)" if "r \<in> set (map2 (set_cell (columns f) c) vs (rows f))" for r
  proof -
    from that obtain v r0 where "r0 \<in> set (rows f)" "r = set_cell (columns f) c v r0"
      by (auto dest: set_zip_rightD)
    then show ?thesis using wf_frameD(3)[OF assms(1)] by (simp add: length_set_cell)
  qed
  with True assms show ?thesis
    by (simp add: wf_frame_def set_col_def list_all_iff)
next
  case False
  have "length r = Suc (length (columns f))" if "r \<in> set (map2 (\<lambda>v r. r @ [v]) vs (rows f))" for r
  proof -
    from that obtain v r0 where "r0 \<in> set (rows f)" "r = r0 @ [v]"
      by (auto dest: set_zip_rightD)
    then show ?thesis using wf_frameD(3)[OF assms(1)] by simp
  qed
  with False assms show ?thesis
    by (simp add: wf_frame_def set_col_def list_all_iff)
qed

lemma cell_of_set_col:
  assumes "wf_frame f" "length vs = length (rows f)" "i < length (rows f)"
  shows "cell_of (columns (set_col c vs f)) (rows (set_col c vs f) ! i) k =
           (if k = c then Some (vs ! i) else cell_of (columns f) (rows f ! i) k)"
proof (cases "c \<in> set (columns f)")
  case True
  have len: "length (rows f ! i) = length (columns f)"
    using wf_frameD(4)[OF assms(1,3)] .
  from True assms show ?thesis
    by (simp add: set_col_def cell_of_set_cell[OF len])
next
  case False
  have len: "length (rows f ! i) = length (columns f)"
    using wf_frameD(4)[OF assms(1,3)] .
  have none: "cell_of (columns f) (rows f ! i) c = None"
    using False by (simp add: cell_of_None[OF len])
  have "cell_of (columns (set_col c vs f)) (rows (set_col c vs f) ! i) k =
        cell_of (columns f @ [c]) (rows f ! i @ [vs ! i]) k"
    using False assms by (simp add: set_col_def)
  also have "\<dots> = (case cell_of (columns f) (rows f ! i) k of
                      Some v \<Rightarrow> Some v | None \<Rightarrow> cell_of [c] [vs ! i] k)"
    by (rule cell_of_append[OF len])
  also have "\<dots> = (if k = c then Some (vs ! i) else cell_of (columns f) (rows f ! i) k)"
    using none by (simp add: cell_of_single split: option.splits)
  finally show ?thesis .
qed

lemma isin_range_iff: "isin_range lo hi l \<longleftrightarrow> lo \<le> l \<and> l < hi"
  by (auto simp: isin_range_def)

lemma filter_zip_positions:
  "length ls = length rs \<Longrightarrow>
   map snd (filter (\<lambda>(l, r). p l) (zip ls rs)) =
   map (\<lambda>i. rs ! i) (filter (\<lambda>i. p (ls ! i)) [0..<length rs])"
proof (induction rs arbitrary: ls rule: rev_induct)
  case Nil
  then show ?case by simp
next
  case (snoc r rs)
  then obtain l ls' where ls: "ls = ls' @ [l]" "length ls' = length rs"
    by (cases ls rule: rev_cases) auto
  have a: "filter (\<lambda>i. p ((ls' @ [l]) ! i)) [0..<length rs] = filter (\<lambda>i. p (ls' ! i)) [0..<length rs]"
    using ls(2) by (intro filter_cong) (auto simp: nth_append)
  have b: "map (\<lambda>i. (rs @ [r]) ! i) (filter (\<lambda>i. p (ls' ! i)) [0..<length rs]) =
           map (\<lambda>i. rs ! i) (filter (\<lambda>i. p (ls' ! i)) [0..<length rs])"
    by (intro map_cong) (auto simp: nth_append)
  from snoc.IH[OF ls(2)] ls a b show ?case
    by (simp add: nth_append)
qed

lemma rows_iloc_rows:
  "wf_frame f \<Longrightarrow> rows (iloc_rows p f) = kept_rows p f"
  by (simp add: iloc_rows_def kept_rows_def filter_zip_positions wf_frameD(2))

lemma iloc_rows_basic:
  "columns (iloc_rows p f) = columns f" "upper (iloc_rows p f) = upper f"
  by (simp_all add: iloc_rows_def)

lemma kept_rows_subset: "set (kept_rows p f) \<subseteq> set (rows f)"
  by (auto simp: kept_rows_def)

lemma length_filter_zip:
  "length ls = length rs \<Longrightarrow>
   length (filter (\<lambda>(l, r). p l) (zip ls rs)) = length (filter p ls)"
proof (induction ls arbitrary: rs)
  case Nil
  then show ?case by simp
next
  case (Cons l ls)
  then obtain r rs' where "rs = r # rs'" "length ls = length rs'" by (cases rs) auto
  with Cons.IH[of rs'] show ?case by simp
qed

lemma wf_iloc_rows: "wf_frame f \<Longrightarrow> wf_frame (iloc_rows p f)"
proof -
  assume wf: "wf_frame f"
  have "length (index (iloc_rows p f)) = length (rows (iloc_rows p f))"
    using wf_frameD(2)[OF wf] by (simp add: iloc_rows_def length_filter_zip)
  moreover have "\<forall>r \<in> set (rows (iloc_rows p f)). length r = length (columns f)"
    using kept_rows_subset[of p f] wf_frameD(3)[OF wf] by (auto simp: rows_iloc_rows[OF wf])
  ultimately show ?thesis
    using wf_frameD(1)[OF wf] by (simp add: wf_frame_def iloc_rows_basic list_all_iff)
qed

lemma length_reindex_row: "length (reindex_row cols ucols r) = length ucols"
  by (simp add: reindex_row_def)

lemma cell_of_reindex_row:
  "cell_of ucols (reindex_row cols ucols r) c =
     (if c \<in> set ucols then Some (case cell_of cols r c of Some v \<Rightarrow> v | None \<Rightarrow> NaN) else None)"
  by (simp add: cell_of_def[of ucols] reindex_row_def map_of_zip_map)

lemma reindex_row_id:
  assumes "distinct cols" "length r = length cols"
  shows "reindex_row cols cols r = r"
proof (rule nth_equalityI)
  show "length (reindex_row cols cols r) = length r"
    using assms by (simp add: length_reindex_row)
next
  fix i assume "i < length (reindex_row cols cols r)"
  then have i: "i < length cols" by (simp add: length_reindex_row)
  then show "reindex_row cols cols r ! i = r ! i"
    using cell_of_nth[OF assms i] by (simp add: reindex_row_def)
qed

lemma remdups_append_filter:
  "remdups (xs @ ys) = remdups (filter (\<lambda>x. x \<notin> set ys) xs) @ remdups ys"
  by (induction xs) auto

lemma union_cols_Cons:
  "distinct cs \<Longrightarrow> \<exists>rest. union_cols (cs # css) = cs @ rest"
proof -
  assume d: "distinct cs"
  have "remdups (rev (concat css) @ rev cs) =
        remdups (filter (\<lambda>x. x \<notin> set (rev cs)) (rev (concat css))) @ remdups (rev cs)"
    by (rule remdups_append_filter)
  moreover have "remdups (rev cs) = rev cs" using d by simp
  ultimately show ?thesis by (simp add: union_cols_def)
qed

lemma union_cols_set: "set (union_cols css) = \<Union> (set ` set css)"
  by (simp add: union_cols_def)

lemma union_cols_distinct: "distinct (union_cols css)"
  by (simp add: union_cols_def)

lemma concat_frames_wf:
  assumes "fs \<noteq> []" "\<forall>f \<in> set fs. wf_frame f"
  shows "\<exists>ucols rest.
     concat_frames fs =
       Inr \<lparr>upper = [], columns = ucols, index = concat (map index fs),
            rows = concat (map (\<lambda>f. map (reindex_row (columns f) ucols) (rows f)) fs)\<rparr> \<and>
     distinct ucols \<and> set ucols = \<Union> ((set \<circ> columns) ` set fs) \<and>
     ucols = columns (hd fs) @ rest"
proof (cases "list_all (\<lambda>f. columns f = columns (hd fs)) fs")
  case True
  define u where "u = columns (hd fs)"
  have eq: "columns f = u" if "f \<in> set fs" for f
    using True that by (simp add: list_all_iff u_def)
  have "map (reindex_row (columns f) u) (rows f) = rows f" if "f \<in> set fs" for f
  proof -
    have wf: "wf_frame f" using assms(2) that by blast
    have "reindex_row (columns f) u r = r" if "r \<in> set (rows f)" for r
      using reindex_row_id[of "columns f" r] wf_frameD(1,3)[OF wf] eq[OF \<open>f \<in> set fs\<close>] that
      by simp
    then show ?thesis by (simp add: map_idI)
  qed
  then have rows_eq:
    "concat (map (\<lambda>f. map (reindex_row (columns f) u) (rows f)) fs) = concat (map rows fs)"
    by (intro arg_cong[where f = concat] map_cong) auto
  have "hd fs \<in> set fs" using assms(1) by simp
  then have d: "distinct u"
    using assms(2) wf_frameD(1) unfolding u_def by blast
  have s: "set u = \<Union> ((set \<circ> columns) ` set fs)"
    using eq \<open>hd fs \<in> set fs\<close> by auto
  have c: "concat_frames fs =
       Inr \<lparr>upper = [], columns = u, index = concat (map index fs),
            rows = concat (map (\<lambda>f. map (reindex_row (columns f) u) (rows f)) fs)\<rparr>"
    unfolding rows_eq using True assms(1) by (simp add: concat_frames_def u_def)
  have "u = columns (hd fs) @ []" by (simp add: u_def)
  with c d s show ?thesis by blast
next
  case False
  define u where "u = union_cols (map columns fs)"
  have nodup: "\<not> list_ex (\<lambda>f. \<not> distinct (columns f)) fs"
    using assms(2) by (auto simp: list_ex_iff wf_frameD(1))
  obtain f0 fs' where fs: "fs = f0 # fs'" using assms(1) by (cases fs) auto
  then have "distinct (columns f0)" using assms(2) by (simp add: wf_frameD(1))
  then obtain rest where "union_cols (columns f0 # map columns fs') = columns f0 @ rest"
    using union_cols_Cons by blast
  then have r: "u = columns (hd fs) @ rest" using fs by (simp add: u_def)
  have s: "set u = \<Union> ((set \<circ> columns) ` set fs)"
    by (simp add: union_cols_set u_def)
  have d: "distinct u" by (simp add: u_def union_cols_distinct)
  have c: "concat_frames fs =
       Inr \<lparr>upper = [], columns = u, index = concat (map index fs),
            rows = concat (map (\<lambda>f. map (reindex_row (columns f) u) (rows f)) fs)\<rparr>"
    using False nodup assms(1) by (simp add: concat_frames_def Let_def u_def)
  from c d s r show ?thesis by blast
qed

section \<open>Properties of the world-record normalizer\<close>

lemma valid_tableD:
  assumes "valid_table to_datetime f"
  shows "wf_frame f" and "''Date'' \<in> set (columns f)"
    and "r \<in> set (rows f) \<Longrightarrow> to_datetime (the (cell_of (columns f) r ''Date'')) \<noteq> None"
  using assms by (auto simp: valid_table_def list_all_iff)

lemma format_date_valid:
  assumes "valid_table to_datetime f" "upper f = []"
  shows "format_date to_datetime f = Inr (dated to_datetime f)"
proof -
  have g: "get_col ''Date'' f = Some (map (\<lambda>r. the (cell_of (columns f) r ''Date'')) (rows f))"
    using valid_tableD(2)[OF assms(1)] by (rule get_col_Some)
  have "list_all (\<lambda>d. to_datetime d \<noteq> None) (map (\<lambda>r. the (cell_of (columns f) r ''Date'')) (rows f))"
    using valid_tableD(3)[OF assms(1)] by (simp add: list_all_iff)
  with g assms(2) show ?thesis
    by (simp add: format_date_def dated_def comp_def)
qed

lemma dated_basic:
  "index (dated t f) = index f" "upper (dated t f) = upper f"
  "length (rows (dated t f)) = length (rows f)"
  "''Date'' \<in> set (columns f) \<Longrightarrow> columns (dated t f) = columns f"
  by (simp_all add: dated_def set_col_basic)

lemma wf_dated: "wf_frame f \<Longrightarrow> wf_frame (dated t f)"
  by (simp add: dated_def wf_set_col)

lemma cell_of_dated:
  assumes "wf_frame f" "i < length (rows f)"
  shows "cell_of (columns (dated t f)) (rows (dated t f) ! i) k =
           (if k = ''Date'' then Some (DT (the (t (the (cell_of (columns f) (rows f ! i) ''Date'')))))
            else cell_of (columns f) (rows f ! i) k)"
  using assms by (simp add: dated_def cell_of_set_col)

lemma set_gender_basic:
  "index (set_gender g f) = index f" "upper (set_gender g f) = upper f"
  "length (rows (set_gender g f)) = length (rows f)"
  "columns (set_gender g f) =
     (if ''gender'' \<in> set (columns f) then columns f else columns f @ [''gender''])"
  by (simp_all add: set_gender_def set_col_basic)

lemma wf_set_gender: "wf_frame f \<Longrightarrow> wf_frame (set_gender g f)"
  by (simp add: set_gender_def wf_set_col)

lemma cell_of_set_gender:
  assumes "wf_frame f" "i < length (rows f)"
  shows "cell_of (columns (set_gender g f)) (rows (set_gender g f) ! i) k =
           (if k = ''gender'' then Some (Str g) else cell_of (columns f) (rows f ! i) k)"
  using assms by (simp add: set_gender_def cell_of_set_col)

lemma wf_frame_upper [simp]: "wf_frame (f\<lparr>upper := u\<rparr>) = wf_frame f"
  by (simp add: wf_frame_def)

lemma valid_table_upper [simp]: "valid_table t (f\<lparr>upper := u\<rparr>) = valid_table t f"
  by (simp add: valid_table_def)

lemma valid_tablesD:
  assumes "valid_tables t dfl st"
  shows "5 \<le> length dfl"
    and "dfl ! 0 \<noteq> dfl ! 1" "dfl ! 0 \<noteq> dfl ! 3" "dfl ! 0 \<noteq> dfl ! 4"
        "dfl ! 1 \<noteq> dfl ! 3" "dfl ! 1 \<noteq> dfl ! 4" "dfl ! 3 \<noteq> dfl ! 4"
    and "valid_table t (st (dfl ! 0))" "valid_table t (st (dfl ! 1))"
        "valid_table t (st (dfl ! 3))" "valid_table t (st (dfl ! 4))"
    and "length (upper (st (dfl ! 0))) = 1" "upper (st (dfl ! 1)) = []"
        "upper (st (dfl ! 3)) = []" "upper (st (dfl ! 4)) = []"
    and "10 \<le> length (columns (st (dfl ! 0)))"
    and "35 \<le> length (running_events (st (dfl ! 0)) (st (dfl ! 1)) (st (dfl ! 3)) (st (dfl ! 4)))"
  using assms by (auto simp: valid_tables_def)

lemma prepare_tables_valid:
  assumes v: "valid_tables t dfl st"
  shows "prepare_tables t (dfl ! 0) (dfl ! 1) (dfl ! 3) (dfl ! 4) st = (None, prepared t dfl st)"
proof -
  note d = valid_tablesD[OF v]
  have u0: "tl (upper (st (dfl ! 0))) = []"
    using d(12) by (cases "upper (st (dfl ! 0))") auto
  have ne: "upper (st (dfl ! 0)) \<noteq> []" using d(12) by auto
  have s1: "mutate (dfl ! 0) droplevel0 st = (None, st(dfl ! 0 := (st (dfl ! 0))\<lparr>upper := []\<rparr>))"
    using ne u0 by (simp add: mutate_def droplevel0_def)
  define st1 where "st1 = st(dfl ! 0 := (st (dfl ! 0))\<lparr>upper := []\<rparr>)"
  have s2: "mutate (dfl ! 0) (format_date t) st1 =
              (None, st1(dfl ! 0 := dated t ((st (dfl ! 0))\<lparr>upper := []\<rparr>)))"
    using d(8) by (simp add: mutate_def st1_def format_date_valid)
  define st2 where "st2 = st1(dfl ! 0 := dated t ((st (dfl ! 0))\<lparr>upper := []\<rparr>))"
  have s3: "mutate (dfl ! 3) (format_date t) st2 = (None, st2(dfl ! 3 := dated t (st (dfl ! 3))))"
    using d(3,10,14) by (simp add: mutate_def st2_def st1_def format_date_valid)
  define st3 where "st3 = st2(dfl ! 3 := dated t (st (dfl ! 3)))"
  have s4: "mutate (dfl ! 1) (format_date t) st3 = (None, st3(dfl ! 1 := dated t (st (dfl ! 1))))"
    using d(2,5,9,13) by (simp add: mutate_def st3_def st2_def st1_def format_date_valid)
  define st4 where "st4 = st3(dfl ! 1 := dated t (st (dfl ! 1)))"
  have s5: "mutate (dfl ! 4) (format_date t) st4 = (None, st4(dfl ! 4 := dated t (st (dfl ! 4))))"
    using d(4,6,7,11,15) by (simp add: mutate_def st4_def st3_def st2_def st1_def format_date_valid)
  define st5 where "st5 = st4(dfl ! 4 := dated t (st (dfl ! 4)))"
  have s6: "mutate (dfl ! 1) (\<lambda>f. Inr (set_gender ''W'' f)) st5 =
              (None, st5(dfl ! 1 := set_gender ''W'' (dated t (st (dfl ! 1)))))"
    using d(6) by (simp add: mutate_def st5_def st4_def)
  define st6 where "st6 = st5(dfl ! 1 := set_gender ''W'' (dated t (st (dfl ! 1))))"
  have s7: "mutate (dfl ! 0) (\<lambda>f. Inr (set_gender ''M'' f)) st6 =
              (None, st6(dfl ! 0 := set_gender ''M'' (dated t ((st (dfl ! 0))\<lparr>upper := []\<rparr>))))"
    using d(2,3,4) by (simp add: mutate_def st6_def st5_def st4_def st3_def st2_def)
  have fin: "st6(dfl ! 0 := set_gender ''M'' (dated t ((st (dfl ! 0))\<lparr>upper := []\<rparr>))) = prepared t dfl st"
    using d(2-7) by (auto simp: fun_eq_iff prepared_def st6_def st5_def st4_def st3_def st2_def st1_def)
  show ?thesis
    unfolding prepare_tables_def then_do_def
    by (simp add: s1 s2 s3 s4 s5 s6 s7 fin
        del: One_nat_def flip: st1_def st2_def st3_def st4_def st5_def st6_def)
qed

lemma select_and_combine_wf:
  assumes "wf_frame m" "wf_frame w" "wf_frame mi" "wf_frame wi"
  shows "\<exists>ucols rest.
     select_and_combine m w mi wi =
       Inr \<lparr>upper = [], columns = ucols,
            index = map int [0..<length (running_events m w mi wi)],
            rows = map (\<lambda>(cols, r). reindex_row cols ucols r) (running_events m w mi wi)\<rparr> \<and>
     distinct ucols \<and>
     set ucols = set (columns m) \<union> set (columns w) \<union> set (columns mi) \<union> set (columns wi) \<and>
     ucols = columns m @ rest"
proof -
  define fs where "fs = [iloc_rows (\<lambda>l. \<not> isin_range 20 42 l) m, iloc_rows (\<lambda>l. \<not> isin_range 27 50 l) w,
      iloc_rows (isin_range 0 12) mi, iloc_rows (isin_range 0 10) wi]"
  have p: "(\<lambda>l. \<not> isin_range 20 42 l) = (\<lambda>l. l < 20 \<or> 41 < l)"
    "(\<lambda>l. \<not> isin_range 27 50 l) = (\<lambda>l. l < 27 \<or> 49 < l)"
    "isin_range 0 12 = (\<lambda>l. 0 \<le> l \<and> l \<le> 11)"
    "isin_range 0 10 = (\<lambda>l. 0 \<le> l \<and> l \<le> 9)"
    by (auto simp: fun_eq_iff isin_range_iff)
  have wf: "\<forall>f \<in> set fs. wf_frame f"
    using assms by (simp add: fs_def wf_iloc_rows)
  have "fs \<noteq> []" by (simp add: fs_def)
  from concat_frames_wf[OF this wf] obtain ucols rest where
    c: "concat_frames fs =
       Inr \<lparr>upper = [], columns = ucols, index = concat (map index fs),
            rows = concat (map (\<lambda>f. map (reindex_row (columns f) ucols) (rows f)) fs)\<rparr>"
    and d: "distinct ucols" and s: "set ucols = \<Union> ((set \<circ> columns) ` set fs)"
    and r: "ucols = columns (hd fs) @ rest"
    by blast
  have rows_eq: "concat (map (\<lambda>f. map (reindex_row (columns f) ucols) (rows f)) fs) =
      map (\<lambda>(cols, r). reindex_row cols ucols r) (running_events m w mi wi)"
    using assms
    by (simp add: fs_def running_events_def rows_iloc_rows iloc_rows_basic p comp_def)
  have s': "set ucols = set (columns m) \<union> set (columns w) \<union> set (columns mi) \<union> set (columns wi)"
    using s by (auto simp: fs_def iloc_rows_basic)
  have r': "ucols = columns m @ rest"
    using r by (simp add: fs_def iloc_rows_basic)
  have "select_and_combine m w mi wi =
       Inr \<lparr>upper = [], columns = ucols,
            index = map int [0..<length (running_events m w mi wi)],
            rows = map (\<lambda>(cols, r). reindex_row cols ucols r) (running_events m w mi wi)\<rparr>"
    unfolding select_and_combine_def Let_def fs_def[symmetric] c rows_eq
    by (simp add: bind_err_def reset_index_def)
  with d s' r' show ?thesis by blast
qed

lemma add_year_ok:
  assumes "wf_frame f" "''Date'' \<in> set (columns f)"
    and "\<forall>r \<in> set (rows f). \<exists>d. cell_of (columns f) r ''Date'' = Some (DT d)"
  shows "add_year f =
     Inr (set_col ''year'' (map (\<lambda>r. the (dt_year (the (cell_of (columns f) r ''Date'')))) (rows f)) f)"
proof -
  have g: "get_col ''Date'' f = Some (map (\<lambda>r. the (cell_of (columns f) r ''Date'')) (rows f))"
    using assms(2) by (rule get_col_Some)
  have "dt_year (the (cell_of (columns f) r ''Date'')) \<noteq> None" if "r \<in> set (rows f)" for r
  proof -
    from assms(3) that obtain d where "cell_of (columns f) r ''Date'' = Some (DT d)" by blast
    then show ?thesis by (cases d) (simp_all add: dt_year_def)
  qed
  then have "list_all (\<lambda>d. dt_year d \<noteq> None) (map (\<lambda>r. the (cell_of (columns f) r ''Date'')) (rows f))"
    by (simp add: list_all_iff)
  with g show ?thesis by (simp add: add_year_def comp_def)
qed

lemma correct_meetings_ok:
  assumes "34 < length (rows f)" "9 < length (columns f)"
  shows "correct_meetings f =
     Inr (f\<lparr>rows := (rows f)[9 := (rows f ! 9)[9 := Str ''Diamond League''],
                            11 := (rows f ! 11)[9 := Str ''NN World Record Day''],
                            34 := (rows f ! 34)[9 := Str ''NN World Record Day'']]\<rparr>)"
  using assms by (simp add: correct_meetings_def iloc_set_def bind_err_def)

lemma running_events_mem:
  assumes "(cols, r) \<in> set (running_events m w mi wi)"
  shows "(cols = columns m \<and> r \<in> set (rows m)) \<or> (cols = columns w \<and> r \<in> set (rows w)) \<or>
         (cols = columns mi \<and> r \<in> set (rows mi)) \<or> (cols = columns wi \<and> r \<in> set (rows wi))"
  using assms kept_rows_subset by (fastforce simp: running_events_def)

lemma date_cells_dated:
  assumes "wf_frame f" "''Date'' \<in> set (columns f)" "r \<in> set (rows (dated t f))"
  shows "\<exists>d. cell_of (columns (dated t f)) r ''Date'' = Some (DT d)"
proof -
  from assms(3) obtain i where i: "i < length (rows f)" "r = rows (dated t f) ! i"
    by (auto simp: in_set_conv_nth dated_basic)
  then show ?thesis using cell_of_dated[OF assms(1) i(1), of t "''Date''"] by simp
qed

lemma date_cells_set_gender:
  assumes "wf_frame f" "\<forall>r \<in> set (rows f). \<exists>d. cell_of (columns f) r ''Date'' = Some (DT d)"
    and "r \<in> set (rows (set_gender g f))"
  shows "\<exists>d. cell_of (columns (set_gender g f)) r ''Date'' = Some (DT d)"
proof -
  from assms(3) obtain i where i: "i < length (rows f)" "r = rows (set_gender g f) ! i"
    by (auto simp: in_set_conv_nth set_gender_basic)
  then have "cell_of (columns (set_gender g f)) r ''Date'' = cell_of (columns f) (rows f ! i) ''Date''"
    using cell_of_set_gender[OF assms(1) i(1), of g "''Date''"] by simp
  with assms(2) i(1) show ?thesis by simp
qed

lemma ready_dated: "valid_table t f \<Longrightarrow> ready (dated t f)"
  using date_cells_dated[of f _ t] valid_tableD(1,2)[of t f]
  by (auto simp: ready_def wf_dated dated_basic)

lemma ready_set_gender: "ready f \<Longrightarrow> ready (set_gender g f)"
  using date_cells_set_gender[of f _ g]
  by (auto simp: ready_def wf_set_gender set_gender_basic)

lemma prepared_frames:
  assumes v: "valid_tables t dfl st"
  shows "prepared t dfl st (dfl ! 0) = set_gender ''M'' (dated t ((st (dfl ! 0))\<lparr>upper := []\<rparr>))"
    and "prepared t dfl st (dfl ! 1) = set_gender ''W'' (dated t (st (dfl ! 1)))"
    and "prepared t dfl st (dfl ! 3) = dated t (st (dfl ! 3))"
    and "prepared t dfl st (dfl ! 4) = dated t (st (dfl ! 4))"
  using valid_tablesD(2-7)[OF v] by (simp_all add: prepared_def del: One_nat_def)

lemma prepared_ready:
  assumes v: "valid_tables t dfl st"
  shows "ready (prepared t dfl st (dfl ! 0))" "ready (prepared t dfl st (dfl ! 1))"
    "ready (prepared t dfl st (dfl ! 3))" "ready (prepared t dfl st (dfl ! 4))"
  using valid_tablesD(8-11)[OF v]
  by (simp_all add: prepared_frames[OF v] ready_dated ready_set_gender del: One_nat_def)

lemma assemble_ready:
  assumes r: "ready m" "ready w" "ready mi" "ready wi"
  defines "sel \<equiv> running_events m w mi wi"
  shows "\<exists>df rest. bind_err (select_and_combine m w mi wi) add_year = Inr df \<and>
     wf_frame df \<and> upper df = [] \<and> index df = map int [0..<length sel] \<and>
     length (rows df) = length sel \<and> columns df = columns m @ rest \<and>
     set (columns df) =
       set (columns m) \<union> set (columns w) \<union> set (columns mi) \<union> set (columns wi) \<union> {''year''} \<and>
     (\<forall>j<length sel. \<forall>c. cell_of (columns df) (rows df ! j) c =
        (if c = ''year''
         then Some (the (dt_year (the (cell_of (fst (sel ! j)) (snd (sel ! j)) ''Date''))))
         else if c \<in> set (columns df)
         then Some (case cell_of (fst (sel ! j)) (snd (sel ! j)) c of Some v \<Rightarrow> v | None \<Rightarrow> NaN)
         else None))"
proof -
  have wf: "wf_frame m" "wf_frame w" "wf_frame mi" "wf_frame wi"
    using r by (simp_all add: ready_def)
  from select_and_combine_wf[OF wf] obtain ucols rest where
    sc: "select_and_combine m w mi wi =
       Inr \<lparr>upper = [], columns = ucols, index = map int [0..<length sel],
            rows = map (\<lambda>(cols, r). reindex_row cols ucols r) sel\<rparr>"
    and d: "distinct ucols"
    and s: "set ucols = set (columns m) \<union> set (columns w) \<union> set (columns mi) \<union> set (columns wi)"
    and p: "ucols = columns m @ rest"
    unfolding sel_def by blast
  define df1 where "df1 = \<lparr>upper = [], columns = ucols, index = map int [0..<length sel],
            rows = map (\<lambda>(cols, r). reindex_row cols ucols r) sel\<rparr>"
  have wf1: "wf_frame df1"
    using d by (auto simp: wf_frame_def df1_def list_all_iff length_reindex_row)
  have date1: "''Date'' \<in> set (columns df1)"
    using s r(1) by (simp add: df1_def ready_def)
  have seldate: "\<exists>d. cell_of cols x ''Date'' = Some (DT d)" if "(cols, x) \<in> set sel" for cols x
    using running_events_mem[OF that[unfolded sel_def]] r by (auto simp: ready_def)
  have cells1: "cell_of ucols (rows df1 ! j) c =
      (if c \<in> set ucols
       then Some (case cell_of (fst (sel ! j)) (snd (sel ! j)) c of Some v \<Rightarrow> v | None \<Rightarrow> NaN)
       else None)" if "j < length sel" for j c
    using that by (simp add: df1_def cell_of_reindex_row case_prod_beta)
  have dates1: "\<forall>x \<in> set (rows df1). \<exists>d. cell_of (columns df1) x ''Date'' = Some (DT d)"
  proof
    fix x assume "x \<in> set (rows df1)"
    then obtain j where j: "j < length sel" "x = rows df1 ! j"
      by (auto simp: in_set_conv_nth df1_def)
    have "sel ! j \<in> set sel" using j(1) by simp
    then obtain d where "cell_of (fst (sel ! j)) (snd (sel ! j)) ''Date'' = Some (DT d)"
      using seldate[of "fst (sel ! j)" "snd (sel ! j)"] by auto
    then show "\<exists>d. cell_of (columns df1) x ''Date'' = Some (DT d)"
      using cells1[OF j(1), of "''Date''"] date1 j(2) by (simp add: df1_def)
  qed
  define ys where "ys = map (\<lambda>x. the (dt_year (the (cell_of (columns df1) x ''Date'')))) (rows df1)"
  define df where "df = set_col ''year'' ys df1"
  have ay: "add_year df1 = Inr df"
    unfolding df_def ys_def by (rule add_year_ok[OF wf1 date1 dates1])
  have len: "length ys = length (rows df1)" by (simp add: ys_def)
  have a: "bind_err (select_and_combine m w mi wi) add_year = Inr df"
    using sc ay by (simp add: bind_err_def df1_def)
  have b: "wf_frame df" unfolding df_def by (rule wf_set_col[OF wf1 len])
  have c: "upper df = []" "index df = map int [0..<length sel]" "length (rows df) = length sel"
    using len by (simp_all add: df_def set_col_basic df1_def)
  have e: "\<exists>rest'. columns df = columns m @ rest'"
    using p by (simp add: df_def set_col_basic df1_def)
  have f: "set (columns df) =
       set (columns m) \<union> set (columns w) \<union> set (columns mi) \<union> set (columns wi) \<union> {''year''}"
    using s by (auto simp: df_def set_col_basic df1_def)
  have g: "cell_of (columns df) (rows df ! j) c =
        (if c = ''year''
         then Some (the (dt_year (the (cell_of (fst (sel ! j)) (snd (sel ! j)) ''Date''))))
         else if c \<in> set (columns df)
         then Some (case cell_of (fst (sel ! j)) (snd (sel ! j)) c of Some v \<Rightarrow> v | None \<Rightarrow> NaN)
         else None)" if j: "j < length sel" for j c
  proof -
    have j1: "j < length (rows df1)" using j by (simp add: df1_def)
    have "sel ! j \<in> set sel" using j by simp
    then obtain d where dd: "cell_of (fst (sel ! j)) (snd (sel ! j)) ''Date'' = Some (DT d)"
      using seldate[of "fst (sel ! j)" "snd (sel ! j)"] by auto
    have yj: "ys ! j = the (dt_year (the (cell_of (fst (sel ! j)) (snd (sel ! j)) ''Date'')))"
      using j1 cells1[OF j, of "''Date''"] date1 dd by (simp add: ys_def df1_def)
    have "cell_of (columns df) (rows df ! j) c =
        (if c = ''year'' then Some (ys ! j) else cell_of (columns df1) (rows df1 ! j) c)"
      unfolding df_def by (rule cell_of_set_col[OF wf1 len j1])
    also have "cell_of (columns df1) (rows df1 ! j) c = cell_of ucols (rows df1 ! j) c"
      by (simp add: df1_def)
    finally show ?thesis
      using cells1[OF j, of c] yj by (auto simp: df_def set_col_basic df1_def)
  qed
  from a b c e f g show ?thesis by blast
qed

lemma bind_err_assoc: "bind_err (bind_err m f) g = bind_err m (\<lambda>x. bind_err (f x) g)"
  by (cases m) (simp_all add: bind_err_def)

lemma create_world_records_df_valid:
  assumes v: "valid_tables t dfl st"
  shows "create_world_records_df t dfl st =
     (bind_err (bind_err (select_and_combine (prepared t dfl st (dfl ! 0)) (prepared t dfl st (dfl ! 1))
                            (prepared t dfl st (dfl ! 3)) (prepared t dfl st (dfl ! 4))) add_year)
        correct_meetings, prepared t dfl st)"
  using valid_tablesD(1)[OF v] prepare_tables_valid[OF v]
  by (simp add: create_world_records_df_def bind_err_assoc Let_def del: One_nat_def)

lemma cell_of_list_update:
  assumes "distinct cols" "length r = length cols" "k < length cols"
  shows "cell_of cols (r[k := v]) c = (if c = cols ! k then Some v else cell_of cols r c)"
proof (cases "c \<in> set cols")
  case True
  then obtain i where i: "i < length cols" "c = cols ! i" by (auto simp: in_set_conv_nth)
  have "cell_of cols (r[k := v]) (cols ! i) = Some ((r[k := v]) ! i)"
    using assms i by (simp add: cell_of_nth)
  moreover have "cell_of cols r (cols ! i) = Some (r ! i)"
    using assms i by (simp add: cell_of_nth)
  moreover have "cols ! i = cols ! k \<longleftrightarrow> i = k"
    using assms i by (simp add: nth_eq_iff_index_eq)
  ultimately show ?thesis using i assms by (auto simp: nth_list_update)
next
  case False
  then have "c \<noteq> cols ! k" using assms(3) by auto
  moreover have "cell_of cols (r[k := v]) c = None" "cell_of cols r c = None"
    using False assms by (simp_all add: cell_of_None)
  ultimately show ?thesis by simp
qed

lemma kept_rows_rel:
  assumes "index f' = index f" "length (rows f') = length (rows f)"
    and "\<forall>i<length (rows f). Q (rows f ! i) (rows f' ! i)"
  shows "list_all2 Q (kept_rows p f) (kept_rows p f')"
  using assms by (simp add: kept_rows_def list_all2_map1 list_all2_map2 list_all2_same)

lemma length_kept_rows:
  "index f' = index f \<Longrightarrow> length (rows f') = length (rows f) \<Longrightarrow>
   length (kept_rows p f') = length (kept_rows p f)"
  by (simp add: kept_rows_def)

lemma same_cells_dated:
  assumes "valid_table t f" "i < length (rows f)"
  shows "same_cells (columns f, rows f ! i) (columns (dated t f), rows (dated t f) ! i)"
proof -
  have wf: "wf_frame f" and d: "''Date'' \<in> set (columns f)"
    using valid_tableD(1,2)[OF assms(1)] by auto
  have "cell_of (columns (dated t f)) (rows (dated t f) ! i) c = cell_of (columns f) (rows f ! i) c"
    if "c \<noteq> ''Date''" for c
    using that cell_of_dated[OF wf assms(2), of t c] by simp
  then show ?thesis
    using d wf_frameD(4)[OF wf assms(2)] by (simp add: same_cells_def dated_basic)
qed

lemma same_cells_gender:
  assumes "valid_table t f" "i < length (rows f)"
  shows "same_cells (columns f, rows f ! i)
           (columns (set_gender g (dated t f)), rows (set_gender g (dated t f)) ! i)"
proof -
  have wf: "wf_frame f" and d: "''Date'' \<in> set (columns f)"
    using valid_tableD(1,2)[OF assms(1)] by auto
  have "cell_of (columns (set_gender g (dated t f))) (rows (set_gender g (dated t f)) ! i) c =
        cell_of (columns f) (rows f ! i) c" if "c \<noteq> ''Date''" "c \<noteq> ''gender''" for c
    using that assms(2) cell_of_set_gender[OF wf_dated[OF wf], of i t g c]
      cell_of_dated[OF wf assms(2), of t c]
    by (simp add: dated_basic)
  moreover have "set (columns f) \<subseteq> set (columns (set_gender g (dated t f)))"
    using d by (auto simp: set_gender_basic dated_basic)
  ultimately show ?thesis
    using wf_frameD(4)[OF wf assms(2)] by (simp add: same_cells_def)
qed

lemma kept_same_cells:
  assumes "index f' = index f" "length (rows f') = length (rows f)"
    and "\<forall>i<length (rows f). same_cells (columns f, rows f ! i) (columns f', rows f' ! i)"
  shows "list_all2 same_cells (map (Pair (columns f)) (kept_rows p f))
           (map (Pair (columns f')) (kept_rows p f'))"
  using kept_rows_rel[OF assms(1,2), of "\<lambda>r r'. same_cells (columns f, r) (columns f', r')" p] assms(3)
  by (simp add: list_all2_map1 list_all2_map2)

lemma running_events_prepared:
  assumes v: "valid_tables t dfl st"
  shows "list_all2 same_cells
     (running_events (st (dfl ! 0)) (st (dfl ! 1)) (st (dfl ! 3)) (st (dfl ! 4)))
     (running_events (prepared t dfl st (dfl ! 0)) (prepared t dfl st (dfl ! 1))
        (prepared t dfl st (dfl ! 3)) (prepared t dfl st (dfl ! 4)))"
proof -
  note d = valid_tablesD[OF v]
  note pf = prepared_frames[OF v]
  have v0: "valid_table t ((st (dfl ! 0))\<lparr>upper := []\<rparr>)" using d(8) by simp
  have a: "list_all2 same_cells (map (Pair (columns (st (dfl ! 0)))) (kept_rows p (st (dfl ! 0))))
       (map (Pair (columns (prepared t dfl st (dfl ! 0)))) (kept_rows p (prepared t dfl st (dfl ! 0))))" for p
    unfolding pf
    using same_cells_gender[OF v0, of _ "''M''"]
    by (intro kept_same_cells) (simp_all add: set_gender_basic dated_basic)
  have b: "list_all2 same_cells (map (Pair (columns (st (dfl ! 1)))) (kept_rows p (st (dfl ! 1))))
       (map (Pair (columns (prepared t dfl st (dfl ! 1)))) (kept_rows p (prepared t dfl st (dfl ! 1))))" for p
    unfolding pf
    using same_cells_gender[OF d(9), of _ "''W''"]
    by (intro kept_same_cells) (simp_all add: set_gender_basic dated_basic)
  have c: "list_all2 same_cells (map (Pair (columns (st (dfl ! 3)))) (kept_rows p (st (dfl ! 3))))
       (map (Pair (columns (prepared t dfl st (dfl ! 3)))) (kept_rows p (prepared t dfl st (dfl ! 3))))" for p
    unfolding pf
    using same_cells_dated[OF d(10)]
    by (intro kept_same_cells) (simp_all add: dated_basic)
  have e: "list_all2 same_cells (map (Pair (columns (st (dfl ! 4)))) (kept_rows p (st (dfl ! 4))))
       (map (Pair (columns (prepared t dfl st (dfl ! 4)))) (kept_rows p (prepared t dfl st (dfl ! 4))))" for p
    unfolding pf
    using same_cells_dated[OF d(11)]
    by (intro kept_same_cells) (simp_all add: dated_basic)
  show ?thesis
    unfolding running_events_def
    by (intro list_all2_appendI a b c e)
qed

lemma length_corrected_rows [simp]: "length (corrected_rows rs) = length rs"
  by (simp add: corrected_rows_def)

lemma nth_corrected_rows:
  "i < length rs \<Longrightarrow>
   corrected_rows rs ! i =
     (if i = 9 then (rs ! 9)[9 := Str ''Diamond League'']
      else if i = 11 \<or> i = 34 then (rs ! i)[9 := Str ''NN World Record Day'']
      else rs ! i)"
  by (auto simp: corrected_rows_def nth_list_update)

lemma world_records_output:
  assumes v: "valid_tables t dfl st"
  defines "sel' \<equiv> running_events (prepared t dfl st (dfl ! 0)) (prepared t dfl st (dfl ! 1))
                     (prepared t dfl st (dfl ! 3)) (prepared t dfl st (dfl ! 4))"
  shows "\<exists>df.
     bind_err (select_and_combine (prepared t dfl st (dfl ! 0)) (prepared t dfl st (dfl ! 1))
                 (prepared t dfl st (dfl ! 3)) (prepared t dfl st (dfl ! 4))) add_year = Inr df \<and>
     create_world_records_df t dfl st =
       (Inr (df\<lparr>rows := corrected_rows (rows df)\<rparr>), prepared t dfl st) \<and>
     wf_frame df \<and> index df = map int [0..<length sel'] \<and> length (rows df) = length sel' \<and>
     34 < length (rows df) \<and> 9 < length (columns df) \<and>
     columns df ! 9 = columns (st (dfl ! 0)) ! 9 \<and>
     (\<forall>j<length sel'. \<forall>c. cell_of (columns df) (rows df ! j) c =
        (if c = ''year''
         then Some (the (dt_year (the (cell_of (fst (sel' ! j)) (snd (sel' ! j)) ''Date''))))
         else if c \<in> set (columns df)
         then Some (case cell_of (fst (sel' ! j)) (snd (sel' ! j)) c of Some v \<Rightarrow> v | None \<Rightarrow> NaN)
         else None)) \<and>
     (\<forall>j<length sel'. set (fst (sel' ! j)) \<subseteq> set (columns df))"
proof -
  note d = valid_tablesD[OF v]
  note pf = prepared_frames[OF v]
  from assemble_ready[OF prepared_ready[OF v]] obtain df rest where
    a: "bind_err (select_and_combine (prepared t dfl st (dfl ! 0)) (prepared t dfl st (dfl ! 1))
                 (prepared t dfl st (dfl ! 3)) (prepared t dfl st (dfl ! 4))) add_year = Inr df"
    and wf: "wf_frame df" and idx: "index df = map int [0..<length sel']"
    and len: "length (rows df) = length sel'"
    and cols: "columns df = columns (prepared t dfl st (dfl ! 0)) @ rest"
    and colset: "set (columns df) =
       set (columns (prepared t dfl st (dfl ! 0))) \<union> set (columns (prepared t dfl st (dfl ! 1))) \<union>
       set (columns (prepared t dfl st (dfl ! 3))) \<union> set (columns (prepared t dfl st (dfl ! 4))) \<union> {''year''}"
    and cells: "\<forall>j<length sel'. \<forall>c. cell_of (columns df) (rows df ! j) c =
        (if c = ''year''
         then Some (the (dt_year (the (cell_of (fst (sel' ! j)) (snd (sel' ! j)) ''Date''))))
         else if c \<in> set (columns df)
         then Some (case cell_of (fst (sel' ! j)) (snd (sel' ! j)) c of Some v \<Rightarrow> v | None \<Rightarrow> NaN)
         else None)"
    unfolding sel'_def by blast
  have "length sel' = length (running_events (st (dfl ! 0)) (st (dfl ! 1)) (st (dfl ! 3)) (st (dfl ! 4)))"
    unfolding sel'_def using running_events_prepared[OF v] by (simp add: list_all2_lengthD)
  with d(17) len have n: "34 < length (rows df)" by simp
  have "''Date'' \<in> set (columns (st (dfl ! 0)))"
    using valid_tableD(2)[OF d(8)] .
  then have c0: "\<exists>g. columns (prepared t dfl st (dfl ! 0)) = columns (st (dfl ! 0)) @ g"
    unfolding pf by (simp add: set_gender_basic dated_basic)
  then obtain g where g: "columns df = columns (st (dfl ! 0)) @ g @ rest"
    using cols by auto
  have k: "9 < length (columns df)" using g d(16) by simp
  have k9: "columns df ! 9 = columns (st (dfl ! 0)) ! 9"
    using g d(16) by (simp add: nth_append)
  have cm: "correct_meetings df = Inr (df\<lparr>rows := corrected_rows (rows df)\<rparr>)"
    using correct_meetings_ok[OF n k] by (simp add: corrected_rows_def)
  have cw: "create_world_records_df t dfl st =
       (Inr (df\<lparr>rows := corrected_rows (rows df)\<rparr>), prepared t dfl st)"
    unfolding create_world_records_df_valid[OF v] a using cm by (simp add: bind_err_def)
  have sub: "set (fst (sel' ! j)) \<subseteq> set (columns df)" if "j < length sel'" for j
  proof -
    obtain cs r where cr: "sel' ! j = (cs, r)" by (cases "sel' ! j")
    have "(cs, r) \<in> set sel'" using that cr by (metis nth_mem)
    from running_events_mem[OF this[unfolded sel'_def]]
    have "cs = columns (prepared t dfl st (dfl ! 0)) \<or> cs = columns (prepared t dfl st (dfl ! 1)) \<or>
          cs = columns (prepared t dfl st (dfl ! 3)) \<or> cs = columns (prepared t dfl st (dfl ! 4))"
      by blast
    then have "set cs \<subseteq> set (columns df)" unfolding colset by blast
    then show ?thesis by (simp add: cr)
  qed
  then have sub': "\<forall>j<length sel'. set (fst (sel' ! j)) \<subseteq> set (columns df)" by blast
  show ?thesis
    apply (rule exI[of _ df])
    apply (intro conjI)
    apply (rule a)
    apply (rule cw)
    apply (rule wf)
    apply (rule idx)
    apply (rule len)
    apply (rule n)
    apply (rule k)
    apply (rule k9)
    apply (rule cells)
    apply (rule sub')
    done
qed

lemma cell_of_corrected:
  assumes "wf_frame df" "9 < length (columns df)" "j < length (rows df)"
  shows "cell_of (columns df) (corrected_rows (rows df) ! j) c =
     (if c = columns df ! 9 \<and> j = 9 then Some (Str ''Diamond League'')
      else if c = columns df ! 9 \<and> (j = 11 \<or> j = 34) then Some (Str ''NN World Record Day'')
      else cell_of (columns df) (rows df ! j) c)"
  using assms wf_frameD(1,4)[OF assms(1)]
  by (simp add: nth_corrected_rows cell_of_list_update)

lemma map_nth_upt_take: "k \<le> length xs \<Longrightarrow> map ((!) xs) [0..<k] = take k xs"
proof -
  assume k: "k \<le> length xs"
  have "take k (map ((!) xs) [0..<length xs]) = map ((!) xs) (take k [0..<length xs])"
    by (rule take_map)
  then show ?thesis using k by (simp add: map_nth)
qed

lemma map_nth_upt_drop: "map ((!) xs) [k..<length xs] = drop k xs"
proof -
  have "drop k (map ((!) xs) [0..<length xs]) = map ((!) xs) (drop k [0..<length xs])"
    by (rule drop_map)
  then show ?thesis by (simp add: map_nth)
qed

lemma filter_upt_outside:
  "A \<le> B \<Longrightarrow> filter (\<lambda>i. i < A \<or> B \<le> i) [0..<n] = [0..<min A n] @ [B..<n]"
proof (induction n)
  case 0
  then show ?case by simp
next
  case (Suc n)
  consider "n < A" | "A \<le> n" "n < B" | "B \<le> n" by linarith
  then show ?case
  proof cases
    case 1
    then have "min A (Suc n) = Suc n" "min A n = n" by linarith+
    with 1 Suc show ?thesis by simp
  next
    case 2
    with Suc show ?thesis by (simp add: min_def)
  next
    case 3
    with Suc show ?thesis by (simp add: min_def)
  qed
qed

lemma take_min_length: "take (min A (length xs)) xs = take A xs"
  by (cases "A \<le> length xs") (simp_all add: min_def)

lemma kept_rows_outside:
  assumes "index f = map int [0..<length (rows f)]" "A \<le> B"
    and "\<forall>i. p (int i) \<longleftrightarrow> i < A \<or> B \<le> i"
  shows "kept_rows p f = take A (rows f) @ drop B (rows f)"
proof -
  have "filter (\<lambda>i. p (index f ! i)) [0..<length (rows f)] =
        filter (\<lambda>i. i < A \<or> B \<le> i) [0..<length (rows f)]"
    using assms(1,3) by (intro filter_cong) auto
  also have "\<dots> = [0..<min A (length (rows f))] @ [B..<length (rows f)]"
    by (rule filter_upt_outside[OF assms(2)])
  finally show ?thesis
    by (simp add: kept_rows_def map_nth_upt_take map_nth_upt_drop take_min_length)
qed

lemma filter_upt_below: "filter (\<lambda>i. i < A) [0..<n] = [0..<min A n]"
proof (induction n)
  case 0
  then show ?case by simp
next
  case (Suc n)
  show ?case
  proof (cases "n < A")
    case True
    then have "min A (Suc n) = Suc n" "min A n = n" by linarith+
    with True Suc show ?thesis by simp
  next
    case False
    then have "min A (Suc n) = A" "min A n = A" by linarith+
    with False Suc show ?thesis by simp
  qed
qed

lemma kept_rows_first:
  assumes "index f = map int [0..<length (rows f)]"
    and "\<And>i. p (int i) \<longleftrightarrow> i < A"
  shows "kept_rows p f = take A (rows f)"
proof -
  have "p (index f ! i) \<longleftrightarrow> i < A" if "i < length (rows f)" for i
  proof -
    have "index f ! i = int i" using that by (simp add: assms(1))
    then show ?thesis by (simp only: assms(2))
  qed
  then have "filter (\<lambda>i. p (index f ! i)) [0..<length (rows f)] =
        filter (\<lambda>i. i < A) [0..<length (rows f)]"
    by (intro filter_cong) auto
  also have "\<dots> = [0..<min A (length (rows f))]"
    by (rule filter_upt_below)
  finally show ?thesis
    by (simp add: kept_rows_def map_nth_upt_take take_min_length)
qed

lemma running_events_range_index:
  assumes "index m = map int [0..<length (rows m)]" "index w = map int [0..<length (rows w)]"
    "index mi = map int [0..<length (rows mi)]" "index wi = map int [0..<length (rows wi)]"
  shows "map snd (running_events m w mi wi) =
     take 20 (rows m) @ drop 42 (rows m) @ take 27 (rows w) @ drop 50 (rows w) @
     take 12 (rows mi) @ take 10 (rows wi)"
proof -
  have "kept_rows (\<lambda>l. l < 20 \<or> 41 < l) m = take 20 (rows m) @ drop 42 (rows m)"
    by (rule kept_rows_outside[OF assms(1)]) auto
  moreover have "kept_rows (\<lambda>l. l < 27 \<or> 49 < l) w = take 27 (rows w) @ drop 50 (rows w)"
    by (rule kept_rows_outside[OF assms(2)]) auto
  moreover have "kept_rows (\<lambda>l. 0 \<le> l \<and> l \<le> 11) mi = take 12 (rows mi)"
    by (rule kept_rows_first[OF assms(3)]) auto
  moreover have "kept_rows (\<lambda>l. 0 \<le> l \<and> l \<le> 9) wi = take 10 (rows wi)"
    by (rule kept_rows_first[OF assms(4)]) auto
  ultimately show ?thesis
    by (simp add: running_events_def comp_def)
qed


text \<open>
  Claim C6.  On valid tables the normalizer returns a table whose rows are numbered from
  zero and are, in this order, the rows of the men's outdoor table with index outside
  20..41, of the women's outdoor table with index outside 27..49, of the men's indoor
  table with index in 0..11 and of the women's indoor table with index in 0..9: row
  \<open>j\<close> of the result agrees with the \<open>j\<close>-th selected row on every column of that
  row's table, apart from the columns the normalizer rewrites (\<^verbatim>\<open>Date\<close>, \<^verbatim>\<open>gender\<close>,
  \<^verbatim>\<open>year\<close>) and the three patched cells.  For tables numbered as \<^verbatim>\<open>read_html\<close> numbers
  them the selection is the first 20 rows and the rows from 42 on, the first 27 rows
  and the rows from 50 on, the first 12 rows, and the first 10 rows.
\<close>

theorem selection_of_running_events:
  assumes "valid_tables to_datetime df_list st"
  shows "\<exists>out st'. create_world_records_df to_datetime df_list st = (Inr out, st') \<and>
     (let m = st (df_list ! 0); w = st (df_list ! 1); mi = st (df_list ! 3); wi = st (df_list ! 4);
          sel = running_events m w mi wi
      in index out = map int [0..<length sel] \<and> length (rows out) = length sel \<and>
         (\<forall>j<length sel. \<forall>c\<in>set (fst (sel ! j)).
            c \<notin> {''Date'', ''gender'', ''year''} \<and> \<not> (c = columns out ! 9 \<and> j \<in> {9, 11, 34}) \<longrightarrow>
            cell_of (columns out) (rows out ! j) c = cell_of (fst (sel ! j)) (snd (sel ! j)) c) \<and>
         (index m = map int [0..<length (rows m)] \<and> index w = map int [0..<length (rows w)] \<and>
          index mi = map int [0..<length (rows mi)] \<and> index wi = map int [0..<length (rows wi)] \<longrightarrow>
          map snd sel =
            take 20 (rows m) @ drop 42 (rows m) @ take 27 (rows w) @ drop 50 (rows w) @
            take 12 (rows mi) @ take 10 (rows wi)))"
proof -
  define sel where "sel = running_events (st (df_list ! 0)) (st (df_list ! 1)) (st (df_list ! 3)) (st (df_list ! 4))"
  define sel' where "sel' = running_events (prepared to_datetime df_list st (df_list ! 0))
      (prepared to_datetime df_list st (df_list ! 1)) (prepared to_datetime df_list st (df_list ! 3))
      (prepared to_datetime df_list st (df_list ! 4))"
  from world_records_output[OF assms] obtain df where
    cw: "create_world_records_df to_datetime df_list st =
       (Inr (df\<lparr>rows := corrected_rows (rows df)\<rparr>), prepared to_datetime df_list st)"
    and wf: "wf_frame df" and idx: "index df = map int [0..<length sel']"
    and len: "length (rows df) = length sel'"
    and k: "9 < length (columns df)"
    and cells: "\<forall>j<length sel'. \<forall>c. cell_of (columns df) (rows df ! j) c =
        (if c = ''year''
         then Some (the (dt_year (the (cell_of (fst (sel' ! j)) (snd (sel' ! j)) ''Date''))))
         else if c \<in> set (columns df)
         then Some (case cell_of (fst (sel' ! j)) (snd (sel' ! j)) c of Some v \<Rightarrow> v | None \<Rightarrow> NaN)
         else None)"
    and sub: "\<forall>j<length sel'. set (fst (sel' ! j)) \<subseteq> set (columns df)"
    unfolding sel'_def by blast
  define out where "out = df\<lparr>rows := corrected_rows (rows df)\<rparr>"
  have rel: "list_all2 same_cells sel sel'"
    unfolding sel_def sel'_def by (rule running_events_prepared[OF assms])
  then have ll: "length sel' = length sel" by (simp add: list_all2_lengthD)
  have main: "cell_of (columns out) (rows out ! j) c = cell_of (fst (sel ! j)) (snd (sel ! j)) c"
    if j: "j < length sel" and c: "c \<in> set (fst (sel ! j))"
      and c1: "c \<notin> {''Date'', ''gender'', ''year''}"
      and c2: "\<not> (c = columns out ! 9 \<and> j \<in> {9, 11, 34})" for j c
  proof -
    have j': "j < length sel'" using j ll by simp
    have sc: "same_cells (sel ! j) (sel' ! j)"
      using rel j by (simp add: list_all2_nthD)
    have cin: "c \<in> set (columns df)"
      using sc c sub j' by (auto simp: same_cells_def)
    have eq: "cell_of (fst (sel' ! j)) (snd (sel' ! j)) c = cell_of (fst (sel ! j)) (snd (sel ! j)) c"
      using sc c c1 by (simp add: same_cells_def)
    have "cell_of (fst (sel ! j)) (snd (sel ! j)) c \<noteq> None"
      using sc c by (simp add: same_cells_def cell_of_None)
    then obtain v where v: "cell_of (fst (sel ! j)) (snd (sel ! j)) c = Some v" by blast
    have "cell_of (columns out) (rows out ! j) c = cell_of (columns df) (rows df ! j) c"
      using cell_of_corrected[OF wf k, of j c] j' len c2 by (auto simp: out_def)
    also have "\<dots> = Some v"
      using cells j' cin c1 eq v by simp
    finally show ?thesis using v by simp
  qed
  have io: "index out = map int [0..<length sel]" and lo: "length (rows out) = length sel"
    using idx len ll by (simp_all add: out_def)
  have cw': "create_world_records_df to_datetime df_list st = (Inr out, prepared to_datetime df_list st)"
    using cw by (simp add: out_def)
  have main': "\<forall>j<length sel. \<forall>c\<in>set (fst (sel ! j)).
            c \<notin> {''Date'', ''gender'', ''year''} \<and> \<not> (c = columns out ! 9 \<and> j \<in> {9, 11, 34}) \<longrightarrow>
            cell_of (columns out) (rows out ! j) c = cell_of (fst (sel ! j)) (snd (sel ! j)) c"
    using main by blast
  have ri: "index (st (df_list ! 0)) = map int [0..<length (rows (st (df_list ! 0)))] \<and>
      index (st (df_list ! 1)) = map int [0..<length (rows (st (df_list ! 1)))] \<and>
      index (st (df_list ! 3)) = map int [0..<length (rows (st (df_list ! 3)))] \<and>
      index (st (df_list ! 4)) = map int [0..<length (rows (st (df_list ! 4)))] \<longrightarrow>
      map snd sel =
        take 20 (rows (st (df_list ! 0))) @ drop 42 (rows (st (df_list ! 0))) @
        take 27 (rows (st (df_list ! 1))) @ drop 50 (rows (st (df_list ! 1))) @
        take 12 (rows (st (df_list ! 3))) @ take 10 (rows (st (df_list ! 4)))"
    unfolding sel_def by (intro impI, elim conjE, rule running_events_range_index)
  show ?thesis
    unfolding Let_def sel_def[symmetric]
    apply (rule exI[of _ out])
    apply (rule exI[of _ "prepared to_datetime df_list st"])
    apply (intro conjI)
    apply (rule cw')
    apply (rule io)
    apply (rule lo)
    apply (rule main')
    apply (rule ri)
    done
qed

text \<open>The example tables are valid, and their selection and preparation are explicit.\<close>

lemma example_range_index: "index (example_table up ev n) = map int [0..<length (rows (example_table up ev n))]"
  by (simp add: example_table_def)

lemma example_running_events:
  "running_events (example_store 0) (example_store 1) (example_store 3) (example_store 4) =
     replicate 21 (example_columns, example_row ''100 m'') @
     replicate 28 (example_columns, example_row ''100 m (women)'') @
     replicate 12 (example_columns, example_row ''50 m'') @
     replicate 10 (example_columns, example_row ''50 m (women)'')"
proof -
  have r: "replicate 20 x @ [x] = replicate 21 x" "replicate 27 x @ [x] = replicate 28 x" for x :: "cell list"
    by (simp_all add: replicate_append_same numeral_eq_Suc)
  have p1: "\<forall>i. (int i < 20 \<or> 41 < int i) \<longleftrightarrow> i < 20 \<or> 42 \<le> i" by auto
  have p2: "\<forall>i. (int i < 27 \<or> 49 < int i) \<longleftrightarrow> i < 27 \<or> 50 \<le> i" by auto
  have p3: "(0 \<le> int i \<and> int i \<le> 11) \<longleftrightarrow> i < 12" for i by auto
  have p4: "(0 \<le> int i \<and> int i \<le> 9) \<longleftrightarrow> i < 10" for i by auto
  have a: "kept_rows (\<lambda>l. l < 20 \<or> 41 < l) (example_table up ev 43) = replicate 21 (example_row ev)" for up ev
    using kept_rows_outside[OF example_range_index _ p1, of up ev 43]
    by (simp add: example_table_def r)
  have b: "kept_rows (\<lambda>l. l < 27 \<or> 49 < l) (example_table up ev 51) = replicate 28 (example_row ev)" for up ev
    using kept_rows_outside[OF example_range_index _ p2, of up ev 51]
    by (simp add: example_table_def r)
  have c: "kept_rows (\<lambda>l. 0 \<le> l \<and> l \<le> 11) (example_table up ev 13) = replicate 12 (example_row ev)" for up ev
    using kept_rows_first[OF example_range_index, of "\<lambda>l. 0 \<le> l \<and> l \<le> 11" 12 up ev 13, OF p3]
    by (simp add: example_table_def)
  have d: "kept_rows (\<lambda>l. 0 \<le> l \<and> l \<le> 9) (example_table up ev 11) = replicate 10 (example_row ev)" for up ev
    using kept_rows_first[OF example_range_index, of "\<lambda>l. 0 \<le> l \<and> l \<le> 9" 10 up ev 11, OF p4]
    by (simp add: example_table_def)
  have cols: "columns (example_table up ev n) = example_columns" for up ev n
    by (simp add: example_table_def)
  show ?thesis
    by (simp add: running_events_def example_store_def a b c d cols)
qed

lemma example_valid: "valid_tables example_to_datetime [0, 1, 2, 3, 4] example_store"
proof -
  have wf: "wf_frame (example_table up ev n)" for up ev n
    by (simp add: wf_frame_def example_table_def example_columns_def example_row_def list_all_iff)
  have vt: "valid_table example_to_datetime (example_table up ev n)" for up ev n
    by (simp add: valid_table_def wf list_all_iff)
       (simp add: example_table_def example_columns_def example_row_def cell_of_def example_to_datetime_def)
  have n: "35 \<le> length (running_events (example_store 0) (example_store 1) (example_store 3) (example_store 4))"
    by (simp add: example_running_events del: One_nat_def)
  have up: "length (upper (example_store 0)) = 1" "upper (example_store 1) = []"
    "upper (example_store 3) = []" "upper (example_store 4) = []"
    "10 \<le> length (columns (example_store 0))"
    by (simp_all add: example_store_def example_table_def example_columns_def)
  have v: "valid_table example_to_datetime (example_store a)" for a
    by (simp add: example_store_def vt)
  show ?thesis
    unfolding valid_tables_def using n up v by (simp del: One_nat_def)
qed

lemma example_meeting_column: "columns (example_store 0) ! 9 = ''Meeting''"
  by (simp add: example_store_def example_table_def example_columns_def)


lemma example_dated:
  "dated example_to_datetime (example_table up ev n) =
     \<lparr>upper = up, columns = example_columns, index = map int [0..<n],
      rows = replicate n (example_dated_row ev)\<rparr>"
  by (simp add: dated_def set_col_def example_table_def)
     (simp add: example_columns_def example_row_def example_dated_row_def cell_of_def
        set_cell_def example_to_datetime_def)

lemma example_gender:
  "set_gender g \<lparr>upper = up, columns = example_columns, index = map int [0..<n],
      rows = replicate n r\<rparr> =
     \<lparr>upper = up, columns = example_columns @ [''gender''], index = map int [0..<n],
      rows = replicate n (r @ [Str g])\<rparr>"
  by (simp add: set_gender_def set_col_def) (simp add: example_columns_def)

lemma example_prepared:
  "prepared example_to_datetime [0, 1, 2, 3, 4] example_store 0 =
     \<lparr>upper = [], columns = example_columns @ [''gender''], index = map int [0..<43],
      rows = replicate 43 (example_dated_row ''100 m'' @ [Str ''M''])\<rparr>"
  "prepared example_to_datetime [0, 1, 2, 3, 4] example_store 1 =
     \<lparr>upper = [], columns = example_columns @ [''gender''], index = map int [0..<51],
      rows = replicate 51 (example_dated_row ''100 m (women)'' @ [Str ''W''])\<rparr>"
  "prepared example_to_datetime [0, 1, 2, 3, 4] example_store 3 =
     \<lparr>upper = [], columns = example_columns, index = map int [0..<13],
      rows = replicate 13 (example_dated_row ''50 m'')\<rparr>"
  "prepared example_to_datetime [0, 1, 2, 3, 4] example_store 4 =
     \<lparr>upper = [], columns = example_columns, index = map int [0..<11],
      rows = replicate 11 (example_dated_row ''50 m (women)'')\<rparr>"
proof -
  have u: "(example_table up ev n)\<lparr>upper := []\<rparr> = example_table [] ev n" for up ev n
    by (simp add: example_table_def)
  show "prepared example_to_datetime [0, 1, 2, 3, 4] example_store 0 =
     \<lparr>upper = [], columns = example_columns @ [''gender''], index = map int [0..<43],
      rows = replicate 43 (example_dated_row ''100 m'' @ [Str ''M''])\<rparr>"
    using prepared_frames(1)[OF example_valid]
    by (simp add: example_store_def u example_dated example_gender)
  show "prepared example_to_datetime [0, 1, 2, 3, 4] example_store 1 =
     \<lparr>upper = [], columns = example_columns @ [''gender''], index = map int [0..<51],
      rows = replicate 51 (example_dated_row ''100 m (women)'' @ [Str ''W''])\<rparr>"
    using prepared_frames(2)[OF example_valid]
    by (simp add: example_store_def u example_dated example_gender)
  show "prepared example_to_datetime [0, 1, 2, 3, 4] example_store 3 =
     \<lparr>upper = [], columns = example_columns, index = map int [0..<13],
      rows = replicate 13 (example_dated_row ''50 m'')\<rparr>"
    using prepared_frames(3)[OF example_valid]
    by (simp add: example_store_def u example_dated example_gender)
  show "prepared example_to_datetime [0, 1, 2, 3, 4] example_store 4 =
     \<lparr>upper = [], columns = example_columns, index = map int [0..<11],
      rows = replicate 11 (example_dated_row ''50 m (women)'')\<rparr>"
    using prepared_frames(4)[OF example_valid]
    by (simp add: example_store_def u example_dated example_gender)
qed

lemma kept_rows_replicate:
  "kept_rows (\<lambda>l. l < 20 \<or> 41 < l) \<lparr>upper = up, columns = cs, index = map int [0..<43], rows = replicate 43 r\<rparr> = replicate 21 r"
  "kept_rows (\<lambda>l. l < 27 \<or> 49 < l) \<lparr>upper = up, columns = cs, index = map int [0..<51], rows = replicate 51 r\<rparr> = replicate 28 r"
  "kept_rows (\<lambda>l. 0 \<le> l \<and> l \<le> 11) \<lparr>upper = up, columns = cs, index = map int [0..<13], rows = replicate 13 r\<rparr> = replicate 12 r"
  "kept_rows (\<lambda>l. 0 \<le> l \<and> l \<le> 9) \<lparr>upper = up, columns = cs, index = map int [0..<11], rows = replicate 11 r\<rparr> = replicate 10 r"
proof -
  have r: "replicate 20 x @ [x] = replicate 21 x" "replicate 27 x @ [x] = replicate 28 x" for x :: "cell list"
    by (simp_all add: replicate_append_same numeral_eq_Suc)
  have p1: "\<forall>i. (int i < 20 \<or> 41 < int i) \<longleftrightarrow> i < 20 \<or> 42 \<le> i" by auto
  have p2: "\<forall>i. (int i < 27 \<or> 49 < int i) \<longleftrightarrow> i < 27 \<or> 50 \<le> i" by auto
  have p3: "(0 \<le> int i \<and> int i \<le> 11) \<longleftrightarrow> i < 12" for i by auto
  have p4: "(0 \<le> int i \<and> int i \<le> 9) \<longleftrightarrow> i < 10" for i by auto
  show "kept_rows (\<lambda>l. l < 20 \<or> 41 < l) \<lparr>upper = up, columns = cs, index = map int [0..<43], rows = replicate 43 r\<rparr> = replicate 21 r"
    using kept_rows_outside[OF _ _ p1, of "\<lparr>upper = up, columns = cs, index = map int [0..<43], rows = replicate 43 r\<rparr>"]
    by (simp add: r)
  show "kept_rows (\<lambda>l. l < 27 \<or> 49 < l) \<lparr>upper = up, columns = cs, index = map int [0..<51], rows = replicate 51 r\<rparr> = replicate 28 r"
    using kept_rows_outside[OF _ _ p2, of "\<lparr>upper = up, columns = cs, index = map int [0..<51], rows = replicate 51 r\<rparr>"]
    by (simp add: r)
  show "kept_rows (\<lambda>l. 0 \<le> l \<and> l \<le> 11) \<lparr>upper = up, columns = cs, index = map int [0..<13], rows = replicate 13 r\<rparr> = replicate 12 r"
    using kept_rows_first[of "\<lparr>upper = up, columns = cs, index = map int [0..<13], rows = replicate 13 r\<rparr>" "\<lambda>l. 0 \<le> l \<and> l \<le> 11" 12, OF _ p3]
    by simp
  show "kept_rows (\<lambda>l. 0 \<le> l \<and> l \<le> 9) \<lparr>upper = up, columns = cs, index = map int [0..<11], rows = replicate 11 r\<rparr> = replicate 10 r"
    using kept_rows_first[of "\<lparr>upper = up, columns = cs, index = map int [0..<11], rows = replicate 11 r\<rparr>" "\<lambda>l. 0 \<le> l \<and> l \<le> 9" 10, OF _ p4]
    by simp
qed

lemma example_prepared_events:
  "running_events (prepared example_to_datetime [0, 1, 2, 3, 4] example_store ([0, 1, 2, 3, 4] ! 0))
     (prepared example_to_datetime [0, 1, 2, 3, 4] example_store ([0, 1, 2, 3, 4] ! 1))
     (prepared example_to_datetime [0, 1, 2, 3, 4] example_store ([0, 1, 2, 3, 4] ! 3))
     (prepared example_to_datetime [0, 1, 2, 3, 4] example_store ([0, 1, 2, 3, 4] ! 4)) =
   replicate 21 (example_columns @ [''gender''], example_dated_row ''100 m'' @ [Str ''M'']) @
   replicate 28 (example_columns @ [''gender''], example_dated_row ''100 m (women)'' @ [Str ''W'']) @
   replicate 12 (example_columns, example_dated_row ''50 m'') @
   replicate 10 (example_columns, example_dated_row ''50 m (women)'')"
proof -
  have i: "[0, 1, 2, 3, 4] ! 0 = (0::nat)" "[0, 1, 2, 3, 4] ! 1 = (1::nat)"
    "[0, 1, 2, 3, 4] ! 3 = (3::nat)" "[0, 1, 2, 3, 4] ! 4 = (4::nat)"
    by simp_all
  show ?thesis
    unfolding i example_prepared running_events_def
    by (simp add: kept_rows_replicate)
qed


theorem selection_of_running_events_witness:
  "valid_tables example_to_datetime [0, 1, 2, 3, 4] example_store \<and>
   (\<exists>out st'. create_world_records_df example_to_datetime [0, 1, 2, 3, 4] example_store = (Inr out, st') \<and>
      index out = map int [0..<71] \<and> length (rows out) = 71 \<and>
      cell_of (columns out) (rows out ! 20) ''Event'' = Some (Str ''100 m'') \<and>
      cell_of (columns out) (rows out ! 21) ''Event'' = Some (Str ''100 m (women)'') \<and>
      cell_of (columns out) (rows out ! 49) ''Event'' = Some (Str ''50 m'') \<and>
      cell_of (columns out) (rows out ! 70) ''Event'' = Some (Str ''50 m (women)''))"
proof -
  define sel where "sel = running_events (example_store 0) (example_store 1) (example_store 3) (example_store 4)"
  from selection_of_running_events[OF example_valid] obtain out st' where
    cw: "create_world_records_df example_to_datetime [0, 1, 2, 3, 4] example_store = (Inr out, st')"
    and idx: "index out = map int [0..<length sel]" and len: "length (rows out) = length sel"
    and cells: "\<forall>j<length sel. \<forall>c\<in>set (fst (sel ! j)).
            c \<notin> {''Date'', ''gender'', ''year''} \<and> \<not> (c = columns out ! 9 \<and> j \<in> {9, 11, 34}) \<longrightarrow>
            cell_of (columns out) (rows out ! j) c = cell_of (fst (sel ! j)) (snd (sel ! j)) c"
    unfolding Let_def sel_def by (auto simp del: One_nat_def)
  have l: "length sel = 71" by (simp add: sel_def example_running_events del: One_nat_def)
  have s20: "sel ! 20 = (example_columns, example_row ''100 m'')"
    and s21: "sel ! 21 = (example_columns, example_row ''100 m (women)'')"
    and s49: "sel ! 49 = (example_columns, example_row ''50 m'')"
    and s70: "sel ! 70 = (example_columns, example_row ''50 m (women)'')"
    by (simp_all add: sel_def example_running_events nth_append del: One_nat_def)
  have ev: "''Event'' \<in> set example_columns" "''Event'' \<notin> {''Date'', ''gender'', ''year''}"
    by (simp_all add: example_columns_def)
  have ce: "cell_of example_columns (example_row e) ''Event'' = Some (Str e)" for e
    by (simp add: cell_of_def example_columns_def example_row_def)
  have "cell_of (columns out) (rows out ! 20) ''Event'' = Some (Str ''100 m'')"
    using cells[rule_format, of 20 "''Event''"] l s20 ev ce by simp
  moreover have "cell_of (columns out) (rows out ! 21) ''Event'' = Some (Str ''100 m (women)'')"
    using cells[rule_format, of 21 "''Event''"] l s21 ev ce by simp
  moreover have "cell_of (columns out) (rows out ! 49) ''Event'' = Some (Str ''50 m'')"
    using cells[rule_format, of 49 "''Event''"] l s49 ev ce by simp
  moreover have "cell_of (columns out) (rows out ! 70) ''Event'' = Some (Str ''50 m (women)'')"
    using cells[rule_format, of 70 "''Event''"] l s70 ev ce by simp
  ultimately show ?thesis using example_valid cw idx len l by auto
qed

text \<open>
  Claim C7.  On valid tables the result is the table of line 61 (concatenated,
  renumbered, with its year column) changed in exactly three cells: position (9, 9)
  holds \<^verbatim>\<open>Diamond League\<close>, positions (11, 9) and (34, 9) hold \<^verbatim>\<open>NN World Record Day\<close>, and every
  other cell, the labels and the index are as before.  Column 9 of the result is column
  9 of the men's outdoor table; when that is the \<^verbatim>\<open>Meeting\<close> column, as on the records
  page the script was written for, these are the meetings of rows 9, 11 and 34.
\<close>

theorem meeting_patches:
  assumes "valid_tables to_datetime df_list st"
  shows "\<exists>out df st'.
     create_world_records_df to_datetime df_list st = (Inr out, st') \<and>
     bind_err (select_and_combine (st' (df_list ! 0)) (st' (df_list ! 1))
                 (st' (df_list ! 3)) (st' (df_list ! 4))) add_year = Inr df \<and>
     columns out = columns df \<and> index out = index df \<and> upper out = upper df \<and>
     length (rows out) = length (rows df) \<and>
     (\<forall>i<length (rows df). length (rows out ! i) = length (rows df ! i) \<and>
        (\<forall>j<length (rows df ! i).
           rows out ! i ! j =
             (if j = 9 \<and> i = 9 then Str ''Diamond League''
              else if j = 9 \<and> (i = 11 \<or> i = 34) then Str ''NN World Record Day''
              else rows df ! i ! j))) \<and>
     (columns (st (df_list ! 0)) ! 9 = ''Meeting'' \<longrightarrow>
        cell_of (columns out) (rows out ! 9) ''Meeting'' = Some (Str ''Diamond League'') \<and>
        cell_of (columns out) (rows out ! 11) ''Meeting'' = Some (Str ''NN World Record Day'') \<and>
        cell_of (columns out) (rows out ! 34) ''Meeting'' = Some (Str ''NN World Record Day''))"
proof -
  from world_records_output[OF assms] obtain df where
    a: "bind_err (select_and_combine (prepared to_datetime df_list st (df_list ! 0))
          (prepared to_datetime df_list st (df_list ! 1)) (prepared to_datetime df_list st (df_list ! 3))
          (prepared to_datetime df_list st (df_list ! 4))) add_year = Inr df"
    and cw: "create_world_records_df to_datetime df_list st =
       (Inr (df\<lparr>rows := corrected_rows (rows df)\<rparr>), prepared to_datetime df_list st)"
    and wf: "wf_frame df" and n: "34 < length (rows df)" and k: "9 < length (columns df)"
    and k9: "columns df ! 9 = columns (st (df_list ! 0)) ! 9"
    by blast
  define out where "out = df\<lparr>rows := corrected_rows (rows df)\<rparr>"
  have b: "columns out = columns df" "index out = index df" "upper out = upper df"
    "length (rows out) = length (rows df)"
    by (simp_all add: out_def)
  have c: "length (rows out ! i) = length (rows df ! i) \<and>
        (\<forall>j<length (rows df ! i).
           rows out ! i ! j =
             (if j = 9 \<and> i = 9 then Str ''Diamond League''
              else if j = 9 \<and> (i = 11 \<or> i = 34) then Str ''NN World Record Day''
              else rows df ! i ! j))" if "i < length (rows df)" for i
    using that by (simp add: out_def nth_corrected_rows nth_list_update)
  have d: "cell_of (columns out) (rows out ! 9) ''Meeting'' = Some (Str ''Diamond League'') \<and>
        cell_of (columns out) (rows out ! 11) ''Meeting'' = Some (Str ''NN World Record Day'') \<and>
        cell_of (columns out) (rows out ! 34) ''Meeting'' = Some (Str ''NN World Record Day'')"
    if "columns (st (df_list ! 0)) ! 9 = ''Meeting''"
    using that k9 n cell_of_corrected[OF wf k, of _ "''Meeting''"] by (simp add: out_def)
  have cw': "create_world_records_df to_datetime df_list st = (Inr out, prepared to_datetime df_list st)"
    using cw by (simp add: out_def)
  show ?thesis
    apply (rule exI[of _ out])
    apply (rule exI[of _ df])
    apply (rule exI[of _ "prepared to_datetime df_list st"])
    apply (intro conjI)
    apply (rule cw')
    apply (rule a)
    apply (rule b(1))
    apply (rule b(2))
    apply (rule b(3))
    apply (rule b(4))
    using c apply blast
    using d apply blast
    done
qed


theorem meeting_patches_witness:
  "valid_tables example_to_datetime [0, 1, 2, 3, 4] example_store \<and>
   columns (example_store 0) ! 9 = ''Meeting'' \<and>
   (\<exists>out st'. create_world_records_df example_to_datetime [0, 1, 2, 3, 4] example_store = (Inr out, st') \<and>
      cell_of (columns out) (rows out ! 9) ''Meeting'' = Some (Str ''Diamond League'') \<and>
      cell_of (columns out) (rows out ! 11) ''Meeting'' = Some (Str ''NN World Record Day'') \<and>
      cell_of (columns out) (rows out ! 34) ''Meeting'' = Some (Str ''NN World Record Day''))"
  using meeting_patches[OF example_valid] example_valid example_meeting_column
  by (simp del: One_nat_def) blast

text \<open>
  Claim C2 at the example tables: the rows that come from the two outdoor tables are
  tagged \<^verbatim>\<open>M\<close> and \<^verbatim>\<open>W\<close>, but the rows that come from the two indoor tables (from
  position 49 and from position 61 of the result) have a missing gender: lines 49 and 50
  assign the gender column of the outdoor tables only.
\<close>

theorem indoor_rows_without_gender:
  "\<exists>out st'. create_world_records_df example_to_datetime [0, 1, 2, 3, 4] example_store = (Inr out, st') \<and>
     length (rows out) = 71 \<and>
     cell_of (columns out) (rows out ! 0) ''gender'' = Some (Str ''M'') \<and>
     cell_of (columns out) (rows out ! 21) ''gender'' = Some (Str ''W'') \<and>
     cell_of (columns out) (rows out ! 49) ''Event'' = Some (Str ''50 m'') \<and>
     cell_of (columns out) (rows out ! 49) ''gender'' = Some NaN \<and>
     cell_of (columns out) (rows out ! 61) ''Event'' = Some (Str ''50 m (women)'') \<and>
     cell_of (columns out) (rows out ! 61) ''gender'' = Some NaN"
proof -
  define sel' where "sel' =
   replicate 21 (example_columns @ [''gender''], example_dated_row ''100 m'' @ [Str ''M'']) @
   replicate 28 (example_columns @ [''gender''], example_dated_row ''100 m (women)'' @ [Str ''W'']) @
   replicate 12 (example_columns, example_dated_row ''50 m'') @
   replicate 10 (example_columns, example_dated_row ''50 m (women)'')"
  from world_records_output[OF example_valid, unfolded example_prepared_events] obtain df where
    cw: "create_world_records_df example_to_datetime [0, 1, 2, 3, 4] example_store =
       (Inr (df\<lparr>rows := corrected_rows (rows df)\<rparr>), prepared example_to_datetime [0, 1, 2, 3, 4] example_store)"
    and wf: "wf_frame df" and len: "length (rows df) = length sel'"
    and k: "9 < length (columns df)"
    and k9: "columns df ! 9 = columns (example_store ([0, 1, 2, 3, 4] ! 0)) ! 9"
    and cells: "\<forall>j<length sel'. \<forall>c. cell_of (columns df) (rows df ! j) c =
        (if c = ''year''
         then Some (the (dt_year (the (cell_of (fst (sel' ! j)) (snd (sel' ! j)) ''Date''))))
         else if c \<in> set (columns df)
         then Some (case cell_of (fst (sel' ! j)) (snd (sel' ! j)) c of Some v \<Rightarrow> v | None \<Rightarrow> NaN)
         else None)"
    and sub: "\<forall>j<length sel'. set (fst (sel' ! j)) \<subseteq> set (columns df)"
    unfolding sel'_def by blast
  define out where "out = df\<lparr>rows := corrected_rows (rows df)\<rparr>"
  have l: "length sel' = 71" by (simp add: sel'_def)
  have s: "sel' ! 0 = (example_columns @ [''gender''], example_dated_row ''100 m'' @ [Str ''M''])"
    "sel' ! 21 = (example_columns @ [''gender''], example_dated_row ''100 m (women)'' @ [Str ''W''])"
    "sel' ! 49 = (example_columns, example_dated_row ''50 m'')"
    "sel' ! 61 = (example_columns, example_dated_row ''50 m (women)'')"
    by (simp_all add: sel'_def nth_append)
  have g: "''gender'' \<in> set (columns df)" "''Event'' \<in> set (columns df)"
    using sub[rule_format, of 0] l s(1) by (auto simp: example_columns_def)
  have m9: "columns df ! 9 = ''Meeting''"
    using k9 example_meeting_column by simp
  have pre: "cell_of (columns out) (rows out ! j) c = cell_of (columns df) (rows df ! j) c"
    if "j < 71" "c \<noteq> ''Meeting''" for j c
    using cell_of_corrected[OF wf k, of j c] that len l m9 by (simp add: out_def)
  have ce: "cell_of (example_columns @ [''gender'']) (example_dated_row e @ [Str x]) ''gender'' = Some (Str x)"
    "cell_of example_columns (example_dated_row e) ''gender'' = None"
    "cell_of example_columns (example_dated_row e) ''Event'' = Some (Str e)" for e x
    by (simp_all add: cell_of_def example_columns_def example_dated_row_def)
  have "cell_of (columns out) (rows out ! 0) ''gender'' = Some (Str ''M'')"
    using pre[of 0 "''gender''"] cells[rule_format, of 0 "''gender''"] l s g ce by simp
  moreover have "cell_of (columns out) (rows out ! 21) ''gender'' = Some (Str ''W'')"
    using pre[of 21 "''gender''"] cells[rule_format, of 21 "''gender''"] l s g ce by simp
  moreover have "cell_of (columns out) (rows out ! 49) ''gender'' = Some NaN"
    using pre[of 49 "''gender''"] cells[rule_format, of 49 "''gender''"] l s g ce by simp
  moreover have "cell_of (columns out) (rows out ! 61) ''gender'' = Some NaN"
    using pre[of 61 "''gender''"] cells[rule_format, of 61 "''gender''"] l s g ce by simp
  moreover have "cell_of (columns out) (rows out ! 49) ''Event'' = Some (Str ''50 m'')"
    using pre[of 49 "''Event''"] cells[rule_format, of 49 "''Event''"] l s g ce by simp
  moreover have "cell_of (columns out) (rows out ! 61) ''Event'' = Some (Str ''50 m (women)'')"
    using pre[of 61 "''Event''"] cells[rule_format, of 61 "''Event''"] l s g ce by simp
  moreover have "length (rows out) = 71" using len l by (simp add: out_def)
  ultimately show ?thesis using cw unfolding out_def[symmetric] by blast
qed

section \<open>Properties of the Wavelight normalizer\<close>

lemma split_from_ne: "split_from sep acc x \<noteq> []"
  by (induction sep acc x rule: split_from.induct) auto

lemma split_from_first:
  "sep \<noteq> [] \<Longrightarrow> first_at sep n x \<Longrightarrow>
   split_from sep acc x = (rev acc @ take n x) # split_from sep [] (drop (n + length sep) x)"
proof (induction n arbitrary: x acc)
  case 0
  then have p: "prefix sep x" by (simp add: first_at_def)
  with 0 obtain c cs where x: "x = c # cs" by (cases x) auto
  have "drop (length sep) (c # cs) = drop (length sep - 1) cs"
    using 0(1) by (cases sep) auto
  with p x 0(1) show ?case by simp
next
  case (Suc n)
  from Suc.prems have p: "prefix sep (drop (Suc n) x)" and np: "\<not> prefix sep x"
    by (auto simp: first_at_def)
  from p Suc.prems(1) obtain c cs where x: "x = c # cs" by (cases x) auto
  have "first_at sep n cs"
    using Suc.prems(2) x by (auto simp: first_at_def)
  from Suc.IH[OF Suc.prems(1) this, of "c # acc"] np x show ?case by simp
qed

lemma split_from_none:
  "\<not> sublist sep x \<Longrightarrow> split_from sep acc x = [rev acc @ x]"
proof (induction x arbitrary: acc)
  case Nil
  then show ?case by simp
next
  case (Cons c cs)
  then have "\<not> prefix sep (c # cs)" and "\<not> sublist sep cs"
    by (auto simp: sublist_Cons_right)
  with Cons.IH[of "c # acc"] show ?case by simp
qed

lemma py_replace_filter: "py_replace old [] s = filter (\<lambda>c. c \<noteq> old) s"
  by (induction s) (auto simp: py_replace_def)


lemma split_year_first:
  assumes "first_at '' ('' n x"
  shows "split_year (Str x) =
           Inr (Str (filter (\<lambda>c. c \<noteq> CHR '')'') (hd (py_split '' ('' (drop (n + 2) x)))))"
proof -
  have "py_split '' ('' x = take n x # py_split '' ('' (drop (n + 2) x)"
    using split_from_first[OF _ assms, of "[]"] by (simp add: py_split_def)
  moreover have "py_split '' ('' (drop (n + 2) x) \<noteq> []"
    by (simp add: py_split_def split_from_ne)
  ultimately show ?thesis
    by (simp add: split_year_def py_replace_filter hd_conv_nth)
qed

lemma no_paren_after:
  assumes "\<not> sublist '' ('' y"
  shows "\<not> sublist '' ('' (y @ '')'')"
proof -
  have "\<not> sublist '' ('' '')''"
    by (simp add: sublist_Cons_right)
  with assms show ?thesis
    by (auto simp: sublist_append Cons_eq_append_conv suffix_def prefix_def)
qed

text \<open>
  Claim C3, as the code has it.  In a \<^verbatim>\<open>Meeting\<close> cell whose first \<^verbatim>\<open>" ("\<close> starts at
  position \<open>n\<close>, the meeting name is the text before it.  The year text is the piece
  between the first \<^verbatim>\<open>" ("\<close> and the next one, or the end of the cell when there is no
  other, with every \<^verbatim>\<open>")"\<close> removed; when the suffix is a text free of \<^verbatim>\<open>")"\<close> and
  \<^verbatim>\<open>" ("\<close> followed by one \<^verbatim>\<open>")"\<close>, that is the suffix with its trailing \<^verbatim>\<open>")"\<close>
  stripped.  A cell without \<^verbatim>\<open>" ("\<close> is its own name and has no year text: taking it
  raises IndexError.
\<close>

theorem split_meeting_first_paren:
  "(first_at '' ('' n x \<longrightarrow>
      split_name (Str x) = Inr (Str (take n x)) \<and>
      (\<forall>m. first_at '' ('' m (drop (n + 2) x) \<longrightarrow>
         split_year (Str x) =
           Inr (Str (filter (\<lambda>c. c \<noteq> CHR '')'') (take m (drop (n + 2) x))))) \<and>
      (\<not> sublist '' ('' (drop (n + 2) x) \<longrightarrow>
         split_year (Str x) = Inr (Str (filter (\<lambda>c. c \<noteq> CHR '')'') (drop (n + 2) x)))) \<and>
      (\<forall>y. drop (n + 2) x = y @ '')'' \<and> CHR '')'' \<notin> set y \<and> \<not> sublist '' ('' y \<longrightarrow>
         split_year (Str x) = Inr (Str y))) \<and>
   (\<not> sublist '' ('' x \<longrightarrow>
      split_name (Str x) = Inr (Str x) \<and> split_year (Str x) = Inl IndexError)"
proof (intro conjI impI allI)
  assume f: "first_at '' ('' n x"
  show "split_name (Str x) = Inr (Str (take n x))"
    using split_from_first[OF _ f, of "[]"] by (simp add: split_name_def py_split_def)
next
  fix m
  assume f: "first_at '' ('' n x" and g: "first_at '' ('' m (drop (n + 2) x)"
  have "hd (py_split '' ('' (drop (n + 2) x)) = take m (drop (n + 2) x)"
    using split_from_first[OF _ g, of "[]"] by (simp add: py_split_def)
  with split_year_first[OF f]
  show "split_year (Str x) = Inr (Str (filter (\<lambda>c. c \<noteq> CHR '')'') (take m (drop (n + 2) x))))"
    by simp
next
  assume f: "first_at '' ('' n x" and g: "\<not> sublist '' ('' (drop (n + 2) x)"
  have "hd (py_split '' ('' (drop (n + 2) x)) = drop (n + 2) x"
    using split_from_none[OF g, of "[]"] by (simp add: py_split_def)
  with split_year_first[OF f]
  show "split_year (Str x) = Inr (Str (filter (\<lambda>c. c \<noteq> CHR '')'') (drop (n + 2) x)))"
    by simp
next
  fix y
  assume f: "first_at '' ('' n x"
    and g: "drop (n + 2) x = y @ '')'' \<and> CHR '')'' \<notin> set y \<and> \<not> sublist '' ('' y"
  then have "\<not> sublist '' ('' (drop (n + 2) x)"
    using no_paren_after[of y] by simp
  then have "hd (py_split '' ('' (drop (n + 2) x)) = drop (n + 2) x"
    using split_from_none[of "'' (''" "drop (n + 2) x" "[]"] by (simp add: py_split_def)
  moreover have "filter (\<lambda>c. c \<noteq> CHR '')'') (y @ '')'') = y"
    using g by (auto simp: filter_id_conv)
  ultimately show "split_year (Str x) = Inr (Str y)"
    using split_year_first[OF f] g by simp
next
  assume g: "\<not> sublist '' ('' x"
  show "split_name (Str x) = Inr (Str x)"
    using split_from_none[OF g, of "[]"] by (simp add: split_name_def py_split_def)
next
  assume g: "\<not> sublist '' ('' x"
  show "split_year (Str x) = Inl IndexError"
    using split_from_none[OF g, of "[]"] by (simp add: split_year_def py_split_def)
qed

theorem split_meeting_first_paren_witness:
  "first_at '' ('' 9 ''Meeting X (1999)'' \<and>
   split_name (Str ''Meeting X (1999)'') = Inr (Str ''Meeting X'') \<and>
   split_year (Str ''Meeting X (1999)'') = Inr (Str ''1999'') \<and>
   \<not> sublist '' ('' ''Oslo'' \<and> split_year (Str ''Oslo'') = Inl IndexError"
proof -
  have f: "first_at '' ('' 9 ''Meeting X (1999)''"
    by (simp add: first_at_def numeral_eq_Suc less_Suc_eq)
  have d: "drop (9 + 2) ''Meeting X (1999)'' = ''1999'' @ '')'' \<and> CHR '')'' \<notin> set ''1999'' \<and>
      \<not> sublist '' ('' ''1999''"
    by (simp add: sublist_Cons_right)
  have n: "\<not> sublist '' ('' ''Oslo''"
    by (simp add: sublist_Cons_right)
  from split_meeting_first_paren[of 9 "''Meeting X (1999)''"] f d
  have "split_name (Str ''Meeting X (1999)'') = Inr (Str (take 9 ''Meeting X (1999)'')) \<and>
        split_year (Str ''Meeting X (1999)'') = Inr (Str ''1999'')"
    by blast
  moreover from split_meeting_first_paren[of 0 "''Oslo''"] n
  have "split_year (Str ''Oslo'') = Inl IndexError" by blast
  ultimately show ?thesis using f n by simp
qed

text \<open>
  Claim C3 as stated fails on a cell with a second \<^verbatim>\<open>" ("\<close>: the year text is the piece
  before the second occurrence, not the suffix after the first one, and the parentheses
  after the first occurrence are not kept in the name.
\<close>

theorem split_meeting_second_paren:
  "spec_split_meeting ''Meeting (Indoor) (2021)'' = Some (''Meeting'', ''Indoor) (2021'') \<and>
   split_name (Str ''Meeting (Indoor) (2021)'') = Inr (Str ''Meeting'') \<and>
   split_year (Str ''Meeting (Indoor) (2021)'') = Inr (Str ''Indoor'') \<and>
   split_year (Str ''Meeting (Indoor) (2021)'') \<noteq>
     Inr (Str (snd (the (spec_split_meeting ''Meeting (Indoor) (2021)''))))"
  by (simp add: spec_split_meeting_def rstrip_paren_def split_name_def split_year_def
      py_split_def py_replace_def)


text \<open>
  Claim C8.  The remap table has these nine keys, in this order, and so pairwise different
  ones; looking up each of them gives the canonical name written beside it here, so the
  two Diamond League meetings and the Monaco meeting map as documented and no key gives
  a missing value; and a name that is not a key, or a cell that is not a string, gives
  NaN.
\<close>

theorem mapper_remap:
  "map fst mapper =
     [''The Track at Boston'',
      ''International Meeting de Lievin'',
      ''Ethiopian Trials'',
      ''FBK Games'',
      ''NN World Record Day'',
      ''Memorial van Damme'',
      ''Herculis Monaco'',
      ''Monaco Diamond League'',
      ''Impossible Games''] \<and>
   map (\<lambda>k. series_map mapper (Str k))
     [''The Track at Boston'',
      ''International Meeting de Lievin'',
      ''Ethiopian Trials'',
      ''FBK Games'',
      ''NN World Record Day'',
      ''Memorial van Damme'',
      ''Herculis Monaco'',
      ''Monaco Diamond League'',
      ''Impossible Games''] =
     [Str ''The Track at Boston'',
      Str ''Meeting Hauts-de-France Pas-de-Calais'',
      Str ''Ethiopian Olympic Trials'',
      Str ''FBK Games'',
      Str ''NN World Record Day'',
      Str ''Diamond League'',
      Str ''Herculis'',
      Str ''Diamond League'',
      Str ''Impossible Games''] \<and>
   (\<forall>k \<in> set (map fst mapper). series_map mapper (Str k) \<noteq> NaN) \<and>
   (\<forall>k. k \<notin> set (map fst mapper) \<longrightarrow> series_map mapper (Str k) = NaN) \<and>
   (\<forall>x. (\<forall>k. x \<noteq> Str k) \<longrightarrow> series_map mapper x = NaN)"
proof (intro conjI)
  show "map fst mapper =
     [''The Track at Boston'',
      ''International Meeting de Lievin'',
      ''Ethiopian Trials'',
      ''FBK Games'',
      ''NN World Record Day'',
      ''Memorial van Damme'',
      ''Herculis Monaco'',
      ''Monaco Diamond League'',
      ''Impossible Games'']"
    by (simp add: mapper_def)
  show "map (\<lambda>k. series_map mapper (Str k))
     [''The Track at Boston'',
      ''International Meeting de Lievin'',
      ''Ethiopian Trials'',
      ''FBK Games'',
      ''NN World Record Day'',
      ''Memorial van Damme'',
      ''Herculis Monaco'',
      ''Monaco Diamond League'',
      ''Impossible Games''] =
     [Str ''The Track at Boston'',
      Str ''Meeting Hauts-de-France Pas-de-Calais'',
      Str ''Ethiopian Olympic Trials'',
      Str ''FBK Games'',
      Str ''NN World Record Day'',
      Str ''Diamond League'',
      Str ''Herculis'',
      Str ''Diamond League'',
      Str ''Impossible Games'']"
    by (simp add: mapper_def series_map_def)
  show "\<forall>k \<in> set (map fst mapper). series_map mapper (Str k) \<noteq> NaN"
  proof
    fix k assume "k \<in> set (map fst mapper)"
    then obtain v where "map_of mapper k = Some v"
      by (metis map_of_eq_None_iff not_Some_eq set_map)
    then show "series_map mapper (Str k) \<noteq> NaN" by (simp add: series_map_def)
  qed
  show "\<forall>k. k \<notin> set (map fst mapper) \<longrightarrow> series_map mapper (Str k) = NaN"
  proof (intro allI impI)
    fix k assume "k \<notin> set (map fst mapper)"
    then have "map_of mapper k = None" by (simp add: map_of_eq_None_iff)
    then show "series_map mapper (Str k) = NaN" by (simp add: series_map_def)
  qed
  show "\<forall>x. (\<forall>k. x \<noteq> Str k) \<longrightarrow> series_map mapper x = NaN"
    by (auto simp: series_map_def split: cell.splits)
qed

theorem mapper_remap_witness:
  "''FBK Games'' \<in> set (map fst mapper) \<and> series_map mapper (Str ''FBK Games'') \<noteq> NaN \<and>
   ''Bislett Games'' \<notin> set (map fst mapper) \<and> series_map mapper (Str ''Bislett Games'') = NaN \<and>
   series_map mapper NaN = NaN"
proof -
  have a: "''FBK Games'' \<in> set (map fst mapper)" by (simp add: mapper_def)
  have b: "''Bislett Games'' \<notin> set (map fst mapper)" by (simp add: mapper_def)
  have c: "\<forall>k. NaN \<noteq> Str k" by simp
  from a b c mapper_remap show ?thesis by blast
qed

section \<open>Properties of the merger\<close>

lemma valid_joinD:
  assumes "valid_join t w r st"
  shows "w \<noteq> r" "wf_frame (st w)" "wf_frame (st r)"
    and "''Athlete'' \<in> set (columns (st w))" "''Meeting'' \<in> set (columns (st w))"
        "''year'' \<in> set (columns (st w))" "''wavelight'' \<in> set (columns (st w))"
    and "''Athlete(s)'' \<in> set (columns (st r))" "''Meeting'' \<in> set (columns (st r))"
        "''year'' \<in> set (columns (st r))"
    and "set (columns (st r)) \<inter> set (columns (st w)) \<subseteq> {''Meeting'', ''year''}"
    and "y \<in> set (rows (st w)) \<Longrightarrow> t (the (cell_of (columns (st w)) y ''year'')) \<noteq> None"
    and "text_column (column ''Athlete(s)'' (st r))" "text_column (column ''Meeting'' (st r))"
        "list_all is_number (column ''year'' (st r))"
        "text_column (column ''Athlete'' (st w))" "text_column (column ''Meeting'' (st w))"
  using assms by (auto simp: valid_join_def list_all_iff)

lemma get_col_column: "c \<in> set (columns f) \<Longrightarrow> get_col c f = Some (column c f)"
  by (simp add: get_col_def column_def)

lemma text_not_number: "is_text c \<Longrightarrow> \<not> is_number c" "is_text c \<Longrightarrow> \<not> is_stamp c"
  by (cases c; simp add: is_text_def is_number_def is_stamp_def)+

lemma text_column_dtype:
  assumes "text_column cs" "cs \<noteq> []"
  shows "infer_dtype cs = Object"
proof -
  from assms obtain c where c: "c \<in> set cs" "is_text c"
    by (auto simp: text_column_def list_ex_iff)
  then have "\<not> list_all is_number cs" "\<not> list_all is_stamp cs"
    using text_not_number by (auto simp: list_all_iff)
  then show ?thesis by (simp add: infer_dtype_def)
qed

lemma text_columns_compatible:
  "text_column a \<Longrightarrow> text_column b \<Longrightarrow> \<not> incompatible_keys a b"
  by (auto simp: incompatible_keys_def Let_def text_column_dtype)

lemma number_columns_compatible:
  "list_all is_number a \<Longrightarrow> list_all is_number b \<Longrightarrow> \<not> incompatible_keys a b"
  by (simp add: incompatible_keys_def Let_def infer_dtype_def)

lemma astype_year_valid:
  assumes "''year'' \<in> set (columns f)"
    and "\<forall>y \<in> set (rows f). t (the (cell_of (columns f) y ''year'')) \<noteq> None"
  shows "astype_year t f = Inr (typed_years t f)"
proof -
  have g: "get_col ''year'' f = Some (map (\<lambda>r. the (cell_of (columns f) r ''year'')) (rows f))"
    using assms(1) by (rule get_col_Some)
  have "list_all (\<lambda>y. t y \<noteq> None) (map (\<lambda>r. the (cell_of (columns f) r ''year'')) (rows f))"
    using assms(2) by (simp add: list_all_iff)
  with g show ?thesis
    by (simp add: astype_year_def typed_years_def comp_def)
qed

lemma typed_years_basic:
  "index (typed_years t f) = index f" "upper (typed_years t f) = upper f"
  "length (rows (typed_years t f)) = length (rows f)"
  "''year'' \<in> set (columns f) \<Longrightarrow> columns (typed_years t f) = columns f"
  by (simp_all add: typed_years_def set_col_basic)

lemma wf_typed_years: "wf_frame f \<Longrightarrow> wf_frame (typed_years t f)"
  by (simp add: typed_years_def wf_set_col)

lemma cell_of_typed_years:
  assumes "wf_frame f" "i < length (rows f)"
  shows "cell_of (columns (typed_years t f)) (rows (typed_years t f) ! i) k =
           (if k = ''year'' then Some (PyInt (the (t (the (cell_of (columns f) (rows f ! i) ''year'')))))
            else cell_of (columns f) (rows f ! i) k)"
  using assms by (simp add: typed_years_def cell_of_set_col)

lemma cell_of_key_of:
  "cell_of ks (key_of cols ks r) c = (if c \<in> set ks then Some (the (cell_of cols r c)) else None)"
  by (simp add: cell_of_def[of ks] key_of_def map_of_zip_map)

lemma cell_of_replicate:
  "cell_of ks (replicate (length ks) v) c = (if c \<in> set ks then Some v else None)"
proof -
  have "replicate (length ks) v = map (\<lambda>_. v) ks" by (simp add: map_replicate_const)
  then show ?thesis by (simp add: cell_of_def map_of_zip_map)
qed

lemma merge_left_pairs:
  assumes "set [''Athlete(s)'', ''Meeting'', ''year''] \<subseteq> set (columns left)"
    and "set [''Athlete'', ''Meeting'', ''year''] \<subseteq> set (columns right)"
    and "set (columns left) \<inter> set (columns right) \<subseteq> {''Meeting'', ''year''}"
    and "\<not> incompatible_keys (column ''Athlete(s)'' left) (column ''Athlete'' right)"
    and "\<not> incompatible_keys (column ''Meeting'' left) (column ''Meeting'' right)"
    and "\<not> incompatible_keys (column ''year'' left) (column ''year'' right)"
  defines "rcols \<equiv> filter (\<lambda>c. c \<noteq> ''Meeting'' \<and> c \<noteq> ''year'') (columns right)"
  shows "merge_left left right [''Athlete(s)'', ''Meeting'', ''year''] [''Athlete'', ''Meeting'', ''year''] =
     Inr \<lparr>upper = [], columns = columns left @ rcols,
          index = map int [0..<length (join_pairs left right)],
          rows = map (merged_row right rcols) (join_pairs left right)\<rparr>"
proof -
  have dropped: "map snd (filter (\<lambda>(lk, rk). lk = rk)
      (zip [''Athlete(s)'', ''Meeting'', ''year''] [''Athlete'', ''Meeting'', ''year''])) = [''Meeting'', ''year'']"
    by simp
  have rc: "filter (\<lambda>c. c \<notin> set [''Meeting'', ''year'']) (columns right) = rcols"
    by (simp add: rcols_def)
  have ov: "filter (\<lambda>c. c \<in> set rcols) (columns left) = []"
    using assms(3) by (auto simp: rcols_def filter_empty_conv)
  have sfx: "map (add_suffix [] s) cs = cs" for s cs
    by (induction cs) (simp_all add: add_suffix_def)
  have grp: "(if matches right [''Athlete'', ''Meeting'', ''year'']
                   (key_of (columns left) [''Athlete(s)'', ''Meeting'', ''year''] x) = []
        then [x @ replicate (length rcols) NaN]
        else map (\<lambda>y. x @ key_of (columns right) rcols y)
               (matches right [''Athlete'', ''Meeting'', ''year'']
                   (key_of (columns left) [''Athlete(s)'', ''Meeting'', ''year''] x))) =
      map (merged_row right rcols)
        (case filter (\<lambda>y. vendor_key right y = record_key left x) (rows right) of
           [] \<Rightarrow> [(x, None)] | ms \<Rightarrow> map (\<lambda>y. (x, Some y)) ms)" for x
    by (simp add: matches_def vendor_key_def record_key_def merged_row_def comp_def
        split: list.splits)
  have rows_eq: "concat (map (\<lambda>x.
        if matches right [''Athlete'', ''Meeting'', ''year'']
                   (key_of (columns left) [''Athlete(s)'', ''Meeting'', ''year''] x) = []
        then [x @ replicate (length rcols) NaN]
        else map (\<lambda>y. x @ key_of (columns right) rcols y)
               (matches right [''Athlete'', ''Meeting'', ''year'']
                   (key_of (columns left) [''Athlete(s)'', ''Meeting'', ''year''] x))) (rows left)) =
      map (merged_row right rcols) (join_pairs left right)"
    unfolding grp join_pairs_def by (simp add: map_concat comp_def)
  have ok: "\<not> list_ex (\<lambda>(lk, rk). incompatible_keys (the (get_col lk left)) (the (get_col rk right)))
      (zip [''Athlete(s)'', ''Meeting'', ''year''] [''Athlete'', ''Meeting'', ''year''])"
    using assms(1,2,4,5,6) by (simp add: get_col_column)
  show ?thesis
    unfolding merge_left_def dropped rc Let_def ov sfx rows_eq
    using assms(1,2) ok by simp
qed

lemma column_typed_years:
  assumes "wf_frame f" "c \<noteq> ''year''"
  shows "column c (typed_years t f) = column c f"
proof (rule nth_equalityI)
  show "length (column c (typed_years t f)) = length (column c f)"
    by (simp add: column_def typed_years_basic)
next
  fix i assume "i < length (column c (typed_years t f))"
  then have i: "i < length (rows f)" by (simp add: column_def typed_years_basic)
  then show "column c (typed_years t f) ! i = column c f ! i"
    using cell_of_typed_years[OF assms(1) i, of t c] assms(2)
    by (simp add: column_def typed_years_basic)
qed

lemma year_column_typed_years:
  assumes "wf_frame f"
  shows "list_all is_number (column ''year'' (typed_years t f))"
proof -
  have "is_number (column ''year'' (typed_years t f) ! i)"
    if "i < length (column ''year'' (typed_years t f))" for i
  proof -
    have i: "i < length (rows f)" using that by (simp add: column_def typed_years_basic)
    then show ?thesis
      using cell_of_typed_years[OF assms i, of t "''year''"]
      by (simp add: column_def typed_years_basic is_number_def)
  qed
  then show ?thesis by (simp add: list_all_length)
qed

lemma join_pairs_mem:
  assumes "(x, yo) \<in> set (join_pairs left right)"
  shows "x \<in> set (rows left)"
    and "yo = None \<Longrightarrow> filter (\<lambda>y. vendor_key right y = record_key left x) (rows right) = []"
    and "yo = Some y \<Longrightarrow> y \<in> set (rows right) \<and> vendor_key right y = record_key left x"
proof -
  define F where "F x' = filter (\<lambda>y. vendor_key right y = record_key left x') (rows right)" for x'
  from assms obtain x' where x': "x' \<in> set (rows left)"
    and m: "(x, yo) \<in> set (case F x' of [] \<Rightarrow> [(x', None)] | ms \<Rightarrow> map (\<lambda>y. (x', Some y)) ms)"
    by (auto simp: join_pairs_def F_def)
  have xx: "x = x'" using m by (cases "F x'") auto
  show "x \<in> set (rows left)" using x' xx by simp
  show "filter (\<lambda>y. vendor_key right y = record_key left x) (rows right) = []" if "yo = None"
    using m that xx by (cases "F x'") (auto simp: F_def)
  show "y \<in> set (rows right) \<and> vendor_key right y = record_key left x" if "yo = Some y"
  proof -
    have "y \<in> set (F x')" using m that by (cases "F x'") auto
    then show ?thesis using xx by (simp add: F_def)
  qed
qed

lemma wf_sifan_hassan: "wf_frame sifan_hassan"
  by (simp add: wf_frame_def sifan_hassan_def)

lemma cell_of_merged_row:
  assumes "length (fst p) = length lcols"
  shows "cell_of (lcols @ rcols) (merged_row right rcols p) c =
     (case cell_of lcols (fst p) c of
        Some v \<Rightarrow> Some v
      | None \<Rightarrow> if c \<in> set rcols
                then Some (case snd p of None \<Rightarrow> NaN | Some y \<Rightarrow> the (cell_of (columns right) y c))
                else None)"
  using assms
  by (cases "snd p")
     (simp_all add: merged_row_def cell_of_append cell_of_replicate cell_of_key_of
        split: option.splits)

lemma length_merged_row:
  "length (merged_row right rcols p) = length (fst p) + length rcols"
  by (cases "snd p") (simp_all add: merged_row_def key_of_def)

lemma fill_wavelight_ok:
  assumes "''wavelight'' \<in> set (columns f)"
  shows "fill_wavelight f =
     Inr (set_col ''wavelight''
            (map (\<lambda>r. fillna (Str ''n'') (the (cell_of (columns f) r ''wavelight''))) (rows f)) f)"
  using get_col_Some[OF assms] by (simp add: fill_wavelight_def comp_def)

lemma combine_output:
  assumes v: "valid_join t w r st"
  defines "W \<equiv> typed_years t (st w)"
  defines "ps \<equiv> join_pairs (st r) (typed_years t (st w))"
  shows "\<exists>out. combine_dfs t w r st = (Inr out, st(w := W)) \<and>
     wf_frame out \<and> index out = map int [0..<length ps + 1] \<and>
     length (rows out) = length ps + 1 \<and>
     set (columns out) = set (columns (st r)) \<union> set (columns W) \<union> set (columns sifan_hassan) \<and>
     (\<forall>k<length ps. \<forall>c. cell_of (columns out) (rows out ! k) c = combined_cell (st r) W (ps ! k) c) \<and>
     (\<forall>c. cell_of (columns out) (rows out ! length ps) c =
        (if c \<in> set (columns sifan_hassan)
         then cell_of (columns sifan_hassan) (hd (rows sifan_hassan)) c
         else if c \<in> set (columns out) then Some NaN else None))"
proof -
  note d = valid_joinD[OF v]
  define R where "R = st r"
  have colsW: "columns W = columns (st w)"
    using d(6) by (simp add: W_def typed_years_basic)
  have wfW: "wf_frame W" using d(2) by (simp add: W_def wf_typed_years)
  have wfR: "wf_frame R" using d(3) by (simp add: R_def)
  have mut: "mutate w (astype_year t) st = (None, st(w := W))"
    using astype_year_valid[of "st w" t] d(6,12) by (simp add: mutate_def W_def)
  define rcols where "rcols = filter (\<lambda>c. c \<noteq> ''Meeting'' \<and> c \<noteq> ''year'') (columns W)"
  define M where "M = \<lparr>upper = [], columns = columns R @ rcols,
          index = map int [0..<length ps], rows = map (merged_row W rcols) ps\<rparr>"
  have ml: "merge_left R W [''Athlete(s)'', ''Meeting'', ''year''] [''Athlete'', ''Meeting'', ''year''] = Inr M"
    unfolding M_def rcols_def ps_def W_def[symmetric] R_def[symmetric]
    using d(4-6,8-11) d(13-17) d(2)
    by (intro merge_left_pairs)
       (simp_all add: colsW[unfolded W_def] R_def W_def text_columns_compatible
          number_columns_compatible column_typed_years year_column_typed_years)
  have psx: "length (fst (ps ! k)) = length (columns R)" if "k < length ps" for k
  proof -
    have "(fst (ps ! k), snd (ps ! k)) \<in> set (join_pairs R W)"
      using that by (simp add: ps_def R_def W_def)
    from join_pairs_mem(1)[OF this] show ?thesis using wf_frameD(3)[OF wfR] by simp
  qed
  have disj: "set (columns R) \<inter> set rcols = {}"
    using d(11) by (auto simp: rcols_def colsW R_def)
  have psm: "length (fst p) = length (columns R)" if "p \<in> set ps" for p
    using that psx by (auto simp: in_set_conv_nth)
  have dM: "distinct (columns R @ rcols)"
    using wf_frameD(1)[OF wfR] wf_frameD(1)[OF wfW] disj by (simp add: rcols_def)
  have wfM: "wf_frame M"
    using dM psm by (simp add: wf_frame_def M_def list_all_iff length_merged_row)
  have wl: "''wavelight'' \<in> set rcols" "''wavelight'' \<notin> set (columns R)"
    using d(7,11) by (auto simp: rcols_def colsW R_def)
  define F where "F = set_col ''wavelight''
            (map (\<lambda>x. fillna (Str ''n'') (the (cell_of (columns M) x ''wavelight''))) (rows M)) M"
  have fw: "fill_wavelight M = Inr F"
    unfolding F_def using wl(1) by (intro fill_wavelight_ok) (simp add: M_def)
  have wfF: "wf_frame F" unfolding F_def by (intro wf_set_col wfM) simp
  have colsF: "columns F = columns R @ rcols"
    using wl(1) by (simp add: F_def set_col_basic M_def)
  have lenF: "length (rows F) = length ps"
    by (simp add: F_def set_col_basic M_def)
  have cellM: "cell_of (columns M) (rows M ! k) c =
     (case cell_of (columns R) (fst (ps ! k)) c of
        Some v \<Rightarrow> Some v
      | None \<Rightarrow> if c \<in> set rcols
                then Some (case snd (ps ! k) of None \<Rightarrow> NaN | Some y \<Rightarrow> the (cell_of (columns W) y c))
                else None)" if "k < length ps" for k c
    using that cell_of_merged_row[OF psx[OF that], where right = W and rcols = rcols and c = c] by (simp add: M_def)
  have cellF: "cell_of (columns F) (rows F ! k) c =
     (if c = ''wavelight''
      then Some (fillna (Str ''n'') (the (cell_of (columns M) (rows M ! k) ''wavelight'')))
      else cell_of (columns M) (rows M ! k) c)" if "k < length ps" for k c
  proof -
    have "k < length (rows M)" using that by (simp add: M_def)
    from cell_of_set_col[OF wfM _ this, of "map (\<lambda>x. fillna (Str ''n'') (the (cell_of (columns M) x ''wavelight''))) (rows M)" "''wavelight''" c]
    show ?thesis using that by (simp add: F_def M_def)
  qed
  from concat_frames_wf[of "[F, sifan_hassan]"] wfF wf_sifan_hassan
  obtain ucols rest where
    cf: "concat_frames [F, sifan_hassan] =
       Inr \<lparr>upper = [], columns = ucols, index = index F @ index sifan_hassan,
            rows = map (reindex_row (columns F) ucols) (rows F) @
                   map (reindex_row (columns sifan_hassan) ucols) (rows sifan_hassan)\<rparr>"
    and du: "distinct ucols"
    and su: "set ucols = set (columns F) \<union> set (columns sifan_hassan)"
    by auto
  define out where "out = \<lparr>upper = [], columns = ucols, index = map int [0..<length ps + 1],
            rows = map (reindex_row (columns F) ucols) (rows F) @
                   [reindex_row (columns sifan_hassan) ucols (hd (rows sifan_hassan))]\<rparr>"
  have srows: "map (reindex_row (columns sifan_hassan) ucols) (rows sifan_hassan) =
      [reindex_row (columns sifan_hassan) ucols (hd (rows sifan_hassan))]"
    by (simp add: sifan_hassan_def)
  have cd: "combine_dfs t w r st = (Inr out, st(w := W))"
    unfolding combine_dfs_def mut
    using ml fw cf d(1) lenF
    by (simp add: bind_err_def R_def reset_index_def out_def srows)
  have wfo: "wf_frame out"
    using du lenF by (auto simp: wf_frame_def out_def list_all_iff length_reindex_row)
  have so: "set (columns out) = set (columns (st r)) \<union> set (columns W) \<union> set (columns sifan_hassan)"
    using su d(9,10) by (auto simp: out_def colsF rcols_def R_def)
  have ck: "cell_of (columns out) (rows out ! k) c = combined_cell (st r) W (ps ! k) c"
    if k: "k < length ps" for k c
  proof -
    have "rows out ! k = reindex_row (columns F) ucols (rows F ! k)"
      using k lenF by (simp add: out_def nth_append)
    then have e: "cell_of (columns out) (rows out ! k) c =
        (if c \<in> set ucols
         then Some (case cell_of (columns F) (rows F ! k) c of Some v \<Rightarrow> v | None \<Rightarrow> NaN)
         else None)"
      by (simp add: out_def cell_of_reindex_row)
    have lx: "length (fst (ps ! k)) = length (columns R)" using psx[OF k] .
    show ?thesis
    proof (cases "c \<in> set (columns R)")
      case True
      then obtain v where v: "cell_of (columns R) (fst (ps ! k)) c = Some v"
        using cell_of_None[OF lx, of c] by auto
      have "c \<noteq> ''wavelight''" using True wl(2) by auto
      then have "cell_of (columns F) (rows F ! k) c = Some v"
        using cellF[OF k, of c] cellM[OF k, of c] v by simp
      moreover have "c \<in> set ucols" using True su colsF by simp
      ultimately show ?thesis using e v True by (simp add: combined_cell_def R_def)
    next
      case False
      then have n: "cell_of (columns R) (fst (ps ! k)) c = None"
        using cell_of_None[OF lx, of c] by simp
      show ?thesis
      proof (cases "c = ''wavelight''")
        case True
        have "cell_of (columns M) (rows M ! k) ''wavelight'' =
            Some (case snd (ps ! k) of None \<Rightarrow> NaN | Some y \<Rightarrow> the (cell_of (columns W) y ''wavelight''))"
          using cellM[OF k, of "''wavelight''"] n True wl by simp
        then have "cell_of (columns F) (rows F ! k) c =
            Some (fillna (Str ''n'')
              (case snd (ps ! k) of None \<Rightarrow> NaN | Some y \<Rightarrow> the (cell_of (columns W) y ''wavelight'')))"
          using cellF[OF k, of c] True by simp
        moreover have "c \<in> set ucols" using True wl(1) su colsF by simp
        ultimately show ?thesis using e True False by (simp add: combined_cell_def R_def)
      next
        case nw: False
        show ?thesis
        proof (cases "c \<in> set (columns W)")
          case True
          then have cr: "c \<in> set rcols"
            using False d(9,10) by (auto simp: rcols_def R_def)
          then have "cell_of (columns F) (rows F ! k) c =
              Some (case snd (ps ! k) of None \<Rightarrow> NaN | Some y \<Rightarrow> the (cell_of (columns W) y c))"
            using cellF[OF k, of c] cellM[OF k, of c] n nw by simp
          moreover have "c \<in> set ucols" using cr su colsF by simp
          ultimately show ?thesis using e True False nw by (simp add: combined_cell_def R_def)
        next
          case nW: False
          then have "c \<notin> set rcols" by (simp add: rcols_def)
          then have "cell_of (columns F) (rows F ! k) c = None"
            using cellF[OF k, of c] cellM[OF k, of c] n nw by simp
          moreover have "c \<in> set ucols \<longleftrightarrow> c \<in> set (columns sifan_hassan)"
            using su colsF False \<open>c \<notin> set rcols\<close> by simp
          ultimately show ?thesis using e False nw nW by (simp add: combined_cell_def R_def)
        qed
      qed
    qed
  qed
  have cl: "cell_of (columns out) (rows out ! length ps) c =
        (if c \<in> set (columns sifan_hassan)
         then cell_of (columns sifan_hassan) (hd (rows sifan_hassan)) c
         else if c \<in> set (columns out) then Some NaN else None)" for c
  proof -
    have "rows out ! length ps = reindex_row (columns sifan_hassan) ucols (hd (rows sifan_hassan))"
      using lenF by (simp add: out_def nth_append)
    then have e: "cell_of (columns out) (rows out ! length ps) c =
        (if c \<in> set ucols
         then Some (case cell_of (columns sifan_hassan) (hd (rows sifan_hassan)) c of
                      Some v \<Rightarrow> v | None \<Rightarrow> NaN)
         else None)"
      by (simp add: out_def cell_of_reindex_row)
    have ls: "length (hd (rows sifan_hassan)) = length (columns sifan_hassan)"
      by (simp add: sifan_hassan_def)
    show ?thesis
    proof (cases "c \<in> set (columns sifan_hassan)")
      case True
      then obtain v where "cell_of (columns sifan_hassan) (hd (rows sifan_hassan)) c = Some v"
        using cell_of_None[OF ls, of c] by auto
      then show ?thesis using e True su by simp
    next
      case False
      then have "cell_of (columns sifan_hassan) (hd (rows sifan_hassan)) c = None"
        using cell_of_None[OF ls, of c] by simp
      then show ?thesis using e False by (simp add: out_def)
    qed
  qed
  have io: "index out = map int [0..<length ps + 1]" and lo: "length (rows out) = length ps + 1"
    using lenF by (simp_all add: out_def)
  show ?thesis
    apply (rule exI[of _ out])
    apply (intro conjI allI impI)
    apply (rule cd)
    apply (rule wfo)
    apply (rule io)
    apply (rule lo)
    apply (rule so)
    apply (erule ck)
    apply (rule cl)
    done
qed

lemma map2_map_same: "map2 f (map g xs) xs = map (\<lambda>x. f (g x) x) xs"
  by (induction xs) simp_all

lemma rows_typed_years:
  assumes "''year'' \<in> set (columns f)"
  shows "rows (typed_years t f) =
     map (\<lambda>r. set_cell (columns f) ''year''
                 (PyInt (the (t (the (cell_of (columns f) r ''year''))))) r) (rows f)"
  using assms by (simp add: typed_years_def set_col_def map2_map_same)

lemma vendor_key_typed:
  assumes "wf_frame f" "''year'' \<in> set (columns f)" "y \<in> set (rows f)"
  shows "vendor_key (typed_years t f)
           (set_cell (columns f) ''year'' (PyInt (the (t (the (cell_of (columns f) y ''year''))))) y) =
         coerced_key t f y"
proof -
  have len: "length y = length (columns f)" using wf_frameD(3)[OF assms(1,3)] .
  show ?thesis
    using assms(2)
    by (simp add: vendor_key_def coerced_key_def key_of_def typed_years_basic
        cell_of_set_cell[OF len])
qed


lemma typed_match_count:
  assumes "wf_frame f" "''year'' \<in> set (columns f)"
  shows "length (filter (\<lambda>y. vendor_key (typed_years t f) y = K) (rows (typed_years t f))) =
         length (filter (\<lambda>y. coerced_key t f y = K) (rows f))"
proof -
  define g where "g = (\<lambda>r. set_cell (columns f) ''year''
                 (PyInt (the (t (the (cell_of (columns f) r ''year''))))) r)"
  have "filter (\<lambda>y. vendor_key (typed_years t f) y = K) (map g (rows f)) =
        map g (filter ((\<lambda>y. vendor_key (typed_years t f) y = K) \<circ> g) (rows f))"
    by (rule filter_map)
  moreover have "filter ((\<lambda>y. vendor_key (typed_years t f) y = K) \<circ> g) (rows f) =
        filter (\<lambda>y. coerced_key t f y = K) (rows f)"
    using vendor_key_typed[OF assms] by (intro filter_cong) (auto simp: g_def)
  ultimately show ?thesis
    unfolding rows_typed_years[OF assms(2)] g_def[symmetric] by simp
qed

lemma exact_match_iff:
  assumes "is_text (the (cell_of (columns left) x ''Athlete(s)''))"
    and "is_text (the (cell_of (columns left) x ''Meeting''))"
    and "is_integer (the (cell_of (columns left) x ''year''))"
    and "t (the (cell_of (columns right) y ''year'')) \<noteq> None"
  shows "coerced_key t right y = record_key left x \<longleftrightarrow> exact_match t left right x y"
  using assms
  by (auto simp: coerced_key_def record_key_def key_of_def exact_match_def same_string_def
      is_text_def is_integer_def split: cell.splits option.splits)



lemma example_join_valid: "valid_join example_to_int64 0 1 example_join_store"
  by code_simp


lemma example_typed_years: "typed_years example_to_int64 (example_join_store 0) = example_typed_wave"
  by (simp add: typed_years_def set_col_def example_join_store_def example_wave_def
      example_typed_wave_def cell_of_def set_cell_def example_to_int64_def)





text \<open>
  A world-record table whose years are text is refused by the join: it is outside
  \<^const>\<open>valid_join\<close>.
\<close>

lemma text_year_raises:
  "fst (combine_dfs example_to_int64 0 1 text_year_store) = Inl ValueError"
  by code_simp

lemma sum_list_max_ge: "length xs \<le> sum_list (map (\<lambda>x. max 1 (n x)) xs)"
  by (induction xs) auto

lemma sum_list_max_eq:
  "sum_list (map (\<lambda>x. max 1 (n x)) xs) = length xs \<longleftrightarrow> (\<forall>x\<in>set xs. n x \<le> (1::nat))"
proof (induction xs)
  case Nil
  then show ?case by simp
next
  case (Cons a xs)
  have "length xs \<le> sum_list (map (\<lambda>x. max 1 (n x)) xs)" by (rule sum_list_max_ge)
  with Cons show ?case by (auto simp: max_def)
qed

lemma sum_list_max_gt:
  "\<exists>x\<in>set xs. 1 < n x \<Longrightarrow> length xs < sum_list (map (\<lambda>x. max 1 (n x)) xs)"
proof -
  assume "\<exists>x\<in>set xs. 1 < n x"
  then have "\<not> (\<forall>x\<in>set xs. n x \<le> 1)" by (auto simp: not_le)
  then have "sum_list (map (\<lambda>x. max 1 (n x)) xs) \<noteq> length xs"
    using sum_list_max_eq[of n xs] by simp
  then show ?thesis using sum_list_max_ge[of xs n] by simp
qed

lemma map_fst_join_pairs:
  "map fst (join_pairs left right) =
     concat (map (\<lambda>x. replicate
        (max 1 (length (filter (\<lambda>y. vendor_key right y = record_key left x) (rows right)))) x)
        (rows left))"
proof -
  have "map fst (case filter (\<lambda>y. vendor_key right y = record_key left x) (rows right) of
              [] \<Rightarrow> [(x, None)] | ms \<Rightarrow> map (\<lambda>y. (x, Some y)) ms) =
        replicate (max 1 (length (filter (\<lambda>y. vendor_key right y = record_key left x) (rows right)))) x"
    for x
    by (cases "filter (\<lambda>y. vendor_key right y = record_key left x) (rows right)")
       (simp_all add: comp_def map_replicate_const max_def)
  then show ?thesis by (simp add: join_pairs_def map_concat comp_def)
qed

lemma length_join_pairs:
  "length (join_pairs left right) =
     sum_list (map (\<lambda>x. max 1 (length (filter (\<lambda>y. vendor_key right y = record_key left x)
                                           (rows right)))) (rows left))"
proof -
  have "length (join_pairs left right) = length (map fst (join_pairs left right))" by simp
  also have "\<dots> = sum_list (map (\<lambda>x. max 1 (length (filter (\<lambda>y. vendor_key right y = record_key left x)
                                           (rows right)))) (rows left))"
    unfolding map_fst_join_pairs by (simp add: length_concat comp_def)
  finally show ?thesis .
qed

lemma exact_match_count:
  assumes "is_text (the (cell_of (columns left) x ''Athlete(s)''))"
    and "is_text (the (cell_of (columns left) x ''Meeting''))"
    and "is_integer (the (cell_of (columns left) x ''year''))"
    and "\<forall>y\<in>set (rows right). t (the (cell_of (columns right) y ''year'')) \<noteq> None"
  shows "filter (\<lambda>y. coerced_key t right y = record_key left x) (rows right) =
         filter (exact_match t left right x) (rows right)"
  using exact_match_iff[OF assms(1,2,3)] assms(4) by (intro filter_cong) auto

text \<open>
  Claim C9.  The tables are the caller's, as they are before the call.  For a world-record
  row \<^term>\<open>x\<close> let \<^term>\<open>n x\<close> be the number of rows of the vendor table with the same
  athlete cell, the same meeting cell and, once converted, the same year; for a row with
  text athlete, text meeting and integer year that is the number of vendor rows that match
  it exactly.  The merger emits \<^term>\<open>max 1 (n x)\<close> joined rows for \<^term>\<open>x\<close>, in the order of
  the world-record table, each with the cells of \<^term>\<open>x\<close>, and one more row after them.  So
  the output has as many rows as the world-record table plus one exactly when no
  world-record row is matched twice, and more whenever one is.
\<close>

theorem merger_row_count:
  assumes "valid_join to_int64 df_wave df_records st"
  shows "\<exists>out. combine_dfs to_int64 df_wave df_records st =
             (Inr out, st(df_wave := typed_years to_int64 (st df_wave))) \<and>
     (let R = st df_records; W = st df_wave;
          n = (\<lambda>x. length (filter (\<lambda>y. coerced_key to_int64 W y = record_key R x) (rows W)));
          copies = concat (map (\<lambda>x. replicate (max 1 (n x)) x) (rows R))
      in length (rows out) = length copies + 1 \<and>
         (\<forall>k<length copies. \<forall>c\<in>set (columns R).
            cell_of (columns out) (rows out ! k) c = cell_of (columns R) (copies ! k) c) \<and>
         length (rows out) = sum_list (map (\<lambda>x. max 1 (n x)) (rows R)) + 1 \<and>
         (length (rows out) = length (rows R) + 1 \<longleftrightarrow> (\<forall>x\<in>set (rows R). n x \<le> 1)) \<and>
         ((\<exists>x\<in>set (rows R). 1 < n x) \<longrightarrow> length (rows R) + 1 < length (rows out)) \<and>
         (\<forall>x\<in>set (rows R).
            is_text (the (cell_of (columns R) x ''Athlete(s)'')) \<and>
            is_text (the (cell_of (columns R) x ''Meeting'')) \<and>
            is_integer (the (cell_of (columns R) x ''year'')) \<longrightarrow>
            n x = length (filter (exact_match to_int64 R W x) (rows W))))"
proof -
  define W0 where "W0 = st df_wave"
  define W where "W = typed_years to_int64 (st df_wave)"
  define R where "R = st df_records"
  define ps where "ps = join_pairs R W"
  define n where "n = (\<lambda>x. length (filter (\<lambda>y. coerced_key to_int64 W0 y = record_key R x) (rows W0)))"
  define copies where "copies = concat (map (\<lambda>x. replicate (max 1 (n x)) x) (rows R))"
  note v = valid_joinD[OF assms]
  from combine_output[OF assms] obtain out where
    cd: "combine_dfs to_int64 df_wave df_records st = (Inr out, st(df_wave := W))"
    and lo: "length (rows out) = length ps + 1"
    and ck: "\<forall>k<length ps. \<forall>c. cell_of (columns out) (rows out ! k) c = combined_cell R W (ps ! k) c"
    unfolding W_def R_def ps_def by blast
  have cnt: "length (filter (\<lambda>y. vendor_key W y = record_key R x) (rows W)) = n x" for x
    unfolding W_def n_def W0_def by (rule typed_match_count[OF v(2,6)])
  have mf: "map fst ps = copies"
    unfolding ps_def copies_def map_fst_join_pairs cnt ..
  then have lc: "length copies = length ps" by (metis length_map)
  have ls: "length ps = sum_list (map (\<lambda>x. max 1 (n x)) (rows R))"
    unfolding ps_def length_join_pairs cnt ..
  have a: "length (rows out) = length copies + 1" using lo lc by simp
  have b: "\<forall>k<length copies. \<forall>c\<in>set (columns R).
            cell_of (columns out) (rows out ! k) c = cell_of (columns R) (copies ! k) c"
  proof (intro allI impI ballI)
    fix k c assume k: "k < length copies" and c: "c \<in> set (columns R)"
    have "copies ! k = fst (ps ! k)" using k lc mf by (metis nth_map)
    then show "cell_of (columns out) (rows out ! k) c = cell_of (columns R) (copies ! k) c"
      using ck k lc c by (simp add: combined_cell_def)
  qed
  have c: "length (rows out) = sum_list (map (\<lambda>x. max 1 (n x)) (rows R)) + 1"
    using lo ls by simp
  have d: "length (rows out) = length (rows R) + 1 \<longleftrightarrow> (\<forall>x\<in>set (rows R). n x \<le> 1)"
    using c sum_list_max_eq[of n "rows R"] by simp
  have e: "(\<exists>x\<in>set (rows R). 1 < n x) \<longrightarrow> length (rows R) + 1 < length (rows out)"
    using c sum_list_max_gt[of "rows R" n] by auto
  have yc: "\<forall>y\<in>set (rows W0). to_int64 (the (cell_of (columns W0) y ''year'')) \<noteq> None"
    using v(12) by (simp add: W0_def)
  have f: "\<forall>x\<in>set (rows R).
            is_text (the (cell_of (columns R) x ''Athlete(s)'')) \<and>
            is_text (the (cell_of (columns R) x ''Meeting'')) \<and>
            is_integer (the (cell_of (columns R) x ''year'')) \<longrightarrow>
            n x = length (filter (exact_match to_int64 R W0 x) (rows W0))"
    unfolding n_def using exact_match_count[OF _ _ _ yc] by simp
  show ?thesis
    unfolding Let_def
    apply (rule exI[of _ out])
    apply (simp only: R_def[symmetric] W0_def[symmetric])
    apply (simp only: W0_def W_def[symmetric])
    apply (simp only: W0_def[symmetric])
    apply (intro conjI)
    apply (rule cd)
    apply (rule a[unfolded copies_def n_def])
    apply (rule b[unfolded copies_def n_def])
    apply (rule c[unfolded n_def])
    apply (rule d[unfolded n_def])
    apply (rule e[unfolded n_def])
    apply (rule f[unfolded n_def])
    done
qed

lemma example_match_counts:
  "map (\<lambda>x. length (filter (\<lambda>y. coerced_key example_to_int64 (example_join_store 0) y =
                               record_key (example_join_store 1) x)
                        (rows (example_join_store 0)))) (rows (example_join_store 1)) = [1, 2, 0]"
  by (simp add: example_join_store_def example_records_def example_wave_def
      coerced_key_def record_key_def key_of_def cell_of_def example_to_int64_def)

text \<open>The example: the match counts are 1, 2 and 0, and three records give five rows.\<close>

theorem merger_row_count_witness:
  "valid_join example_to_int64 0 1 example_join_store \<and>
   map (\<lambda>x. length (filter (\<lambda>y. coerced_key example_to_int64 (example_join_store 0) y =
                               record_key (example_join_store 1) x)
                        (rows (example_join_store 0)))) (rows (example_join_store 1)) = [1, 2, 0] \<and>
   length (rows (example_join_store 1)) = 3 \<and>
   (\<exists>out. combine_dfs example_to_int64 0 1 example_join_store =
            (Inr out, example_join_store(0 := example_typed_wave)) \<and>
      length (rows out) = 5)"
proof -
  from merger_row_count[OF example_join_valid] obtain out where
    cd: "combine_dfs example_to_int64 0 1 example_join_store =
           (Inr out, example_join_store(0 := typed_years example_to_int64 (example_join_store 0)))"
    and b: "length (rows out) =
       sum_list (map (\<lambda>x. max 1 (length (filter (\<lambda>y. coerced_key example_to_int64 (example_join_store 0) y =
                               record_key (example_join_store 1) x)
                        (rows (example_join_store 0))))) (rows (example_join_store 1))) + 1"
    unfolding Let_def by blast
  note m = example_match_counts
  have "map (\<lambda>x. max 1 (length (filter (\<lambda>y. coerced_key example_to_int64 (example_join_store 0) y =
                               record_key (example_join_store 1) x)
                        (rows (example_join_store 0))))) (rows (example_join_store 1)) =
        map (max 1) (map (\<lambda>x. length (filter (\<lambda>y. coerced_key example_to_int64 (example_join_store 0) y =
                               record_key (example_join_store 1) x)
                        (rows (example_join_store 0)))) (rows (example_join_store 1)))"
    by (simp add: comp_def)
  then have len: "length (rows out) = 5" using b unfolding m by simp
  have l3: "length (rows (example_join_store 1)) = 3"
    by (simp add: example_join_store_def example_records_def)
  show ?thesis
    apply (intro conjI)
    apply (rule example_join_valid)
    apply (rule m)
    apply (rule l3)
    apply (rule exI[of _ out])
    apply (intro conjI)
    apply (rule cd[unfolded example_typed_years])
    apply (rule len)
    done
qed







section \<open>What the stages leave in the caller's tables\<close>

lemma mutate_other: "b \<noteq> a \<Longrightarrow> snd (mutate a g st) b = st b"
  by (simp add: mutate_def split: sum.splits)

lemma then_do_other:
  assumes "\<And>s. snd (m1 s) b = s b" "\<And>s. snd (m2 s) b = s b"
  shows "snd (then_do m1 m2 st) b = st b"
proof (cases "m1 st")
  case (Pair e s1)
  have s1: "s1 b = st b" using assms(1)[of st] Pair by simp
  show ?thesis
  proof (cases e)
    case None
    then show ?thesis using Pair s1 assms(2)[of s1] by (simp add: then_do_def)
  next
    case (Some x)
    then show ?thesis using Pair s1 by (simp add: then_do_def)
  qed
qed

lemma prepare_tables_other:
  assumes "b \<noteq> m" "b \<noteq> w" "b \<noteq> mi" "b \<noteq> wi"
  shows "snd (prepare_tables t m w mi wi st) b = st b"
  unfolding prepare_tables_def
  by (intro then_do_other mutate_other assms)

lemma create_world_records_df_other:
  assumes "a \<notin> {df_list ! 0, df_list ! 1, df_list ! 3, df_list ! 4}"
  shows "snd (create_world_records_df t df_list st) a = st a"
proof (cases "length df_list < 5")
  case True
  then show ?thesis by (simp add: create_world_records_df_def)
next
  case False
  obtain e s1 where p: "prepare_tables t (df_list ! 0) (df_list ! 1) (df_list ! 3) (df_list ! 4) st = (e, s1)"
    by (cases "prepare_tables t (df_list ! 0) (df_list ! 1) (df_list ! 3) (df_list ! 4) st")
  have "s1 a = st a"
    using prepare_tables_other[of a "df_list ! 0" "df_list ! 1" "df_list ! 3" "df_list ! 4" t st] assms p
    by simp
  then show ?thesis
    using False p by (cases e) (simp_all add: create_world_records_df_def Let_def del: One_nat_def)
qed

lemma combine_dfs_other:
  assumes "a \<noteq> df_wave"
  shows "snd (combine_dfs t df_wave df_records st) a = st a"
proof -
  obtain e s1 where p: "mutate df_wave (astype_year t) st = (e, s1)"
    by (cases "mutate df_wave (astype_year t) st")
  have "s1 a = st a" using mutate_other[OF assms, of "astype_year t" st] p by simp
  then show ?thesis using p by (cases e) (simp_all add: combine_dfs_def)
qed

lemma prepared_shape:
  "index (prepared t df_list st a) = index (st a) \<and>
   length (rows (prepared t df_list st a)) = length (rows (st a))"
  by (simp add: prepared_def set_gender_basic dated_basic del: One_nat_def)

text \<open>
  Claim C4, as the code has it.  \<^verbatim>\<open>create_world_records_df\<close> changes no table other than
  the four it selects from its list; on valid tables it leaves those four as its
  preparation made them (the men's outdoor table without the upper header level, dates
  parsed in all four, a \<^verbatim>\<open>gender\<close> column in the two outdoor tables), with the index and the
  number of rows they had.  \<^verbatim>\<open>combine_dfs\<close> changes no table other than the vendor table; on
  valid tables it leaves the world-record table as it was and the vendor table with its
  \<^verbatim>\<open>year\<close> column converted to integers, with the index, the columns and the number of rows
  it had.
\<close>

theorem stages_rewrite_selected_tables:
  "(\<forall>a. a \<notin> {df_list ! 0, df_list ! 1, df_list ! 3, df_list ! 4} \<longrightarrow>
        snd (create_world_records_df to_datetime df_list st) a = st a) \<and>
   (valid_tables to_datetime df_list st \<longrightarrow>
      snd (create_world_records_df to_datetime df_list st) = prepared to_datetime df_list st \<and>
      (\<forall>a. index (prepared to_datetime df_list st a) = index (st a) \<and>
           length (rows (prepared to_datetime df_list st a)) = length (rows (st a)))) \<and>
   (\<forall>a. a \<noteq> df_wave \<longrightarrow> snd (combine_dfs to_int64 df_wave df_records s) a = s a) \<and>
   (valid_join to_int64 df_wave df_records s \<longrightarrow>
      snd (combine_dfs to_int64 df_wave df_records s) =
        s(df_wave := typed_years to_int64 (s df_wave)) \<and>
      snd (combine_dfs to_int64 df_wave df_records s) df_records = s df_records \<and>
      index (typed_years to_int64 (s df_wave)) = index (s df_wave) \<and>
      length (rows (typed_years to_int64 (s df_wave))) = length (rows (s df_wave)) \<and>
      columns (typed_years to_int64 (s df_wave)) = columns (s df_wave))"
proof (intro conjI allI impI)
  fix a assume "a \<notin> {df_list ! 0, df_list ! 1, df_list ! 3, df_list ! 4}"
  then show "snd (create_world_records_df to_datetime df_list st) a = st a"
    by (rule create_world_records_df_other)
next
  assume "valid_tables to_datetime df_list st"
  then show "snd (create_world_records_df to_datetime df_list st) = prepared to_datetime df_list st"
    by (simp add: create_world_records_df_valid)
next
  fix a
  show "index (prepared to_datetime df_list st a) = index (st a)"
    using prepared_shape by blast
  show "length (rows (prepared to_datetime df_list st a)) = length (rows (st a))"
    using prepared_shape by blast
next
  fix a assume "a \<noteq> df_wave"
  then show "snd (combine_dfs to_int64 df_wave df_records s) a = s a"
    by (rule combine_dfs_other)
next
  assume v: "valid_join to_int64 df_wave df_records s"
  from combine_output[OF v] show "snd (combine_dfs to_int64 df_wave df_records s) =
        s(df_wave := typed_years to_int64 (s df_wave))"
    by auto
  show "snd (combine_dfs to_int64 df_wave df_records s) df_records = s df_records"
    using valid_joinD(1)[OF v] by (intro combine_dfs_other) simp
  show "index (typed_years to_int64 (s df_wave)) = index (s df_wave)"
    by (simp add: typed_years_basic)
  show "length (rows (typed_years to_int64 (s df_wave))) = length (rows (s df_wave))"
    by (simp add: typed_years_basic)
  show "columns (typed_years to_int64 (s df_wave)) = columns (s df_wave)"
    using valid_joinD(6)[OF v] by (simp add: typed_years_basic)
qed

text \<open>
  The example tables: the table at address 2, which the normalizer does not select, and
  the world-record table of the join are unchanged.
\<close>

theorem stages_rewrite_selected_tables_witness:
  "(2::nat) \<notin> {[0, 1, 2, 3, 4] ! 0, [0, 1, 2, 3, 4] ! 1, [0, 1, 2, 3, 4] ! 3, [0, 1, 2, 3, 4] ! 4} \<and>
   snd (create_world_records_df example_to_datetime [0, 1, 2, 3, 4] example_store) 2 = example_store 2 \<and>
   valid_tables example_to_datetime [0, 1, 2, 3, 4] example_store \<and>
   snd (create_world_records_df example_to_datetime [0, 1, 2, 3, 4] example_store) =
     prepared example_to_datetime [0, 1, 2, 3, 4] example_store \<and>
   valid_join example_to_int64 0 1 example_join_store \<and>
   snd (combine_dfs example_to_int64 0 1 example_join_store) 1 = example_join_store 1 \<and>
   snd (combine_dfs example_to_int64 0 1 example_join_store) 0 = example_typed_wave"
proof -
  have n: "(2::nat) \<notin> {[0, 1, 2, 3, 4] ! 0, [0, 1, 2, 3, 4] ! 1, [0, 1, 2, 3, 4] ! 3, [0, 1, 2, 3, 4] ! 4}"
    by simp
  note t = stages_rewrite_selected_tables[of "[0, 1, 2, 3, 4]" example_to_datetime example_store
      0 example_to_int64 1 example_join_store]
  have a: "snd (create_world_records_df example_to_datetime [0, 1, 2, 3, 4] example_store) 2 = example_store 2"
    using t n by blast
  have b: "snd (create_world_records_df example_to_datetime [0, 1, 2, 3, 4] example_store) =
     prepared example_to_datetime [0, 1, 2, 3, 4] example_store"
    using t example_valid by blast
  have c: "snd (combine_dfs example_to_int64 0 1 example_join_store) 1 = example_join_store 1"
    using t example_join_valid by blast
  have "snd (combine_dfs example_to_int64 0 1 example_join_store) =
        example_join_store(0 := typed_years example_to_int64 (example_join_store 0))"
    using t example_join_valid by blast
  then have d: "snd (combine_dfs example_to_int64 0 1 example_join_store) 0 = example_typed_wave"
    by (simp add: example_typed_years)
  show ?thesis
    apply (intro conjI)
    apply (rule n)
    apply (rule a)
    apply (rule example_valid)
    apply (rule b)
    apply (rule example_join_valid)
    apply (rule c)
    apply (rule d)
    done
qed

text \<open>
  Claim C4 as stated fails on the example tables: after \<^verbatim>\<open>create_world_records_df\<close> the
  men's outdoor table of the caller's list has a \<^verbatim>\<open>gender\<close> column, and after \<^verbatim>\<open>combine_dfs\<close>
  the years of the caller's vendor table are integers where they were text.
\<close>

theorem stages_modify_their_inputs:
  "snd (create_world_records_df example_to_datetime [0, 1, 2, 3, 4] example_store) 0 \<noteq> example_store 0 \<and>
   columns (snd (create_world_records_df example_to_datetime [0, 1, 2, 3, 4] example_store) 0) =
     columns (example_store 0) @ [''gender''] \<and>
   snd (combine_dfs example_to_int64 0 1 example_join_store) 0 \<noteq> example_join_store 0 \<and>
   rows (example_join_store 0) ! 0 = [Str ''Usain Bolt'', Str ''Diamond League'', Str ''2009'', Str ''y''] \<and>
   rows (snd (combine_dfs example_to_int64 0 1 example_join_store) 0) ! 0 =
     [Str ''Usain Bolt'', Str ''Diamond League'', PyInt 2009, Str ''y'']"
proof -
  have s: "snd (create_world_records_df example_to_datetime [0, 1, 2, 3, 4] example_store) =
     prepared example_to_datetime [0, 1, 2, 3, 4] example_store"
    using arg_cong[OF create_world_records_df_valid[OF example_valid], of snd]
    by (simp only: snd_conv)
  have c: "columns (snd (create_world_records_df example_to_datetime [0, 1, 2, 3, 4] example_store) 0) =
     columns (example_store 0) @ [''gender'']"
    unfolding s example_prepared by (simp add: example_store_def example_table_def)
  then have a: "snd (create_world_records_df example_to_datetime [0, 1, 2, 3, 4] example_store) 0 \<noteq> example_store 0"
    by (metis append_self_conv not_Cons_self2)
  obtain out where "combine_dfs example_to_int64 0 1 example_join_store =
      (Inr out, example_join_store(0 := typed_years example_to_int64 (example_join_store 0)))"
    using combine_output[OF example_join_valid] by blast
  then have d: "snd (combine_dfs example_to_int64 0 1 example_join_store) 0 = example_typed_wave"
    by (simp add: example_typed_years)
  have r0: "rows (example_join_store 0) ! 0 = [Str ''Usain Bolt'', Str ''Diamond League'', Str ''2009'', Str ''y'']"
    by (simp add: example_join_store_def example_wave_def)
  have r1: "rows (snd (combine_dfs example_to_int64 0 1 example_join_store) 0) ! 0 =
     [Str ''Usain Bolt'', Str ''Diamond League'', PyInt 2009, Str ''y'']"
    unfolding d by (simp add: example_typed_wave_def)
  have b: "snd (combine_dfs example_to_int64 0 1 example_join_store) 0 \<noteq> example_join_store 0"
    using r0 r1 by auto
  show ?thesis
    apply (intro conjI)
    apply (rule a)
    apply (rule c)
    apply (rule b)
    apply (rule r0)
    apply (rule r1)
    done
qed

end
